theory Spec2Isabelle
  imports Complex_Main "HOL-Library.Word" "HOL-Library.Multiset" "HOL-Library.Log_Nat"
begin

section \<open>The session store of the Hitster trainer\<close>

text \<open>
  The program is one React component, \<^verbatim>\<open>App\<close>. Its session state is three
  \<^verbatim>\<open>useState\<close> cells (\<^verbatim>\<open>rows\<close>, \<^verbatim>\<open>order\<close>, \<^verbatim>\<open>index\<close>), mirrored into
  \<^verbatim>\<open>localStorage\<close> under one key. This theory embeds the JavaScript values that can
  reach those cells, the shuffle, the two effects, the CSV callback and the two handlers
  \<^verbatim>\<open>startNew\<close> and \<^verbatim>\<open>next\<close>, and the derived \<^verbatim>\<open>current\<close> track.
\<close>

subsection \<open>Strings, numbers and JSON values\<close>

text \<open>
  A JavaScript string is a sequence of 16-bit code units. \<open>str\<close> embeds an ASCII
  literal of the source.
\<close>

type_synonym jschar = "16 word"
type_synonym jsstring = "jschar list"

definition str :: "string \<Rightarrow> jsstring" where
  "str s = map (\<lambda>c. of_nat (of_char c)) s"

text \<open>
  A JavaScript number that \<^verbatim>\<open>JSON.parse\<close> can return is a finite double or an
  infinity (the literal \<^verbatim>\<open>1e999\<close> overflows to \<^verbatim>\<open>Infinity\<close>); it is never
  \<^verbatim>\<open>NaN\<close>. Finite numbers are embedded as rationals, a superset of the finite
  doubles in which \<^verbatim>\<open>-0\<close> and \<^verbatim>\<open>0\<close> coincide; the arithmetic of the program
  (\<^verbatim>\<open>+ 1\<close>, \<^verbatim>\<open>Math.min\<close>, \<^verbatim>\<open>Math.max\<close>) is exact on the integers below
  \<open>2^53\<close>, which include every array position. The one product of the program, in the
  shuffle, is not exact: it is rounded as a product of doubles is.
\<close>

datatype jsnum = Num rat | PosInf | NegInf

text \<open>
  The values that \<^verbatim>\<open>JSON.parse\<close> returns. An object lists its own properties, each name
  once, in the order of their enumeration.
\<close>

datatype json =
    JNull
  | JBool bool
  | JNum jsnum
  | JStr jsstring
  | JArr "json list"
  | JObj "(jsstring \<times> json) list"

text \<open>
  The result of a property read: \<open>Undefined\<close>, an own value, or \<open>Inherited name\<close>,
  which stands for whatever the prototype chain of an array holds under \<open>name\<close>
  (\<^verbatim>\<open>undefined\<close> when it holds nothing).
\<close>

datatype jsvalue = Undefined | Val json | Inherited jsstring

datatype js_error = SyntaxError | TypeError

text \<open>\<^verbatim>\<open>prevIndex + 1\<close>\<close>

fun plus_one :: "jsnum \<Rightarrow> jsnum" where
  "plus_one (Num q) = Num (q + 1)"
| "plus_one PosInf = PosInf"
| "plus_one NegInf = NegInf"

text \<open>The order \<^verbatim>\<open><=\<close> of numbers.\<close>

fun num_le :: "jsnum \<Rightarrow> jsnum \<Rightarrow> bool" where
  "num_le NegInf y = True"
| "num_le x PosInf = True"
| "num_le (Num a) (Num b) = (a \<le> b)"
| "num_le (Num a) NegInf = False"
| "num_le PosInf (Num b) = False"
| "num_le PosInf NegInf = False"

definition Math_min :: "jsnum \<Rightarrow> jsnum \<Rightarrow> jsnum" where
  "Math_min x y = (if num_le x y then x else y)"

definition Math_max :: "jsnum \<Rightarrow> jsnum \<Rightarrow> jsnum" where
  "Math_max x y = (if num_le x y then y else x)"

text \<open>\<^verbatim>\<open>a.length\<close> of an array, as a number.\<close>

definition array_length :: "'a list \<Rightarrow> jsnum" where
  "array_length xs = Num (of_nat (length xs))"

text \<open>Truthiness of a JSON value (\<^verbatim>\<open>parsed && ...\<close>).\<close>

fun truthy :: "json \<Rightarrow> bool" where
  "truthy JNull = False"
| "truthy (JBool b) = b"
| "truthy (JNum n) = (n \<noteq> Num 0)"
| "truthy (JStr s) = (s \<noteq> [])"
| "truthy (JArr xs) = True"
| "truthy (JObj kvs) = True"

subsection \<open>Doubles\<close>

text \<open>
  The product in \<^verbatim>\<open>Math.random() * (i + 1)\<close> is a product of doubles: the exact
  product rounded to the nearest double, a tie going to the even mantissa. A finite double
  is an integer multiple of its unit in the last place, which is \<open>2^(e - 52)\<close> for a
  number \<open>x\<close> with \<open>2^e \<le> \<bar>x\<bar> < 2^(e + 1)\<close>, and \<open>2^(-1074)\<close> for the numbers below
  \<open>2^(-1022)\<close>. The overflow to \<^verbatim>\<open>Infinity\<close> at \<open>2^1024\<close> is left out: a product of
  the shuffle is below the length of an array.
\<close>

text \<open>
  The binary exponent of a positive number: the \<open>e\<close> with \<open>2^e \<le> x < 2^(e + 1)\<close>. (At 0
  its value does not matter, since 0 is a multiple of every unit.)
\<close>

definition exponent :: "rat \<Rightarrow> int" where
  "exponent x = (if 1 \<le> x then bitlen \<lfloor>x\<rfloor> - 1 else - bitlen (\<lceil>1 / x\<rceil> - 1))"

definition ulp :: "rat \<Rightarrow> rat" where
  "ulp x = 2 powi (max (exponent \<bar>x\<bar>) (- 1022) - 52)"

text \<open>The integer nearest to \<open>q\<close>, the even one of the two when \<open>q\<close> lies half-way.\<close>

definition round_even :: "rat \<Rightarrow> int" where
  "round_even q =
     (if q - of_int \<lfloor>q\<rfloor> < 1 / 2 then \<lfloor>q\<rfloor>
      else if 1 / 2 < q - of_int \<lfloor>q\<rfloor> then \<lfloor>q\<rfloor> + 1
      else if even \<lfloor>q\<rfloor> then \<lfloor>q\<rfloor> else \<lfloor>q\<rfloor> + 1)"

definition round_double :: "rat \<Rightarrow> rat" where
  "round_double x = of_int (round_even (x / ulp x)) * ulp x"

definition is_double :: "rat \<Rightarrow> bool" where
  "is_double x \<longleftrightarrow> round_double x = x"

subsection \<open>The shuffle\<close>

text \<open>
  \<^verbatim>\<open>Math.floor(Math.random() * (i + 1))\<close>, for the value \<open>r\<close> that
  \<^verbatim>\<open>Math.random()\<close> returned: \<^verbatim>\<open>i + 1\<close> is exact, \<open>i\<close> being a position of an
  array; the product is rounded; the floor of a double is exact. The platform promises a
  double \<open>r\<close> with \<open>0 \<le> r < 1\<close>.
\<close>

definition random_index :: "rat \<Rightarrow> nat \<Rightarrow> nat" where
  "random_index r i = nat \<lfloor>round_double (r * (of_nat i + 1))\<rfloor>"

definition unit_interval :: "(nat \<Rightarrow> rat) \<Rightarrow> bool" where
  "unit_interval rnd \<longleftrightarrow> (\<forall>k. is_double (rnd k) \<and> 0 \<le> rnd k \<and> rnd k < 1)"

text \<open>\<^verbatim>\<open>[a[i], a[j]] = [a[j], a[i]]\<close>: both reads come before both writes.\<close>

definition swap :: "nat \<Rightarrow> nat \<Rightarrow> 'a list \<Rightarrow> 'a list" where
  "swap i j a = (a[i := a ! j])[j := a ! i]"

text \<open>
  The loop \<^verbatim>\<open>for (let i = a.length - 1; i > 0; i--)\<close>. \<open>rnd k\<close> is the value of
  the \<open>k\<close>-th call of \<^verbatim>\<open>Math.random()\<close> made by this shuffle.
\<close>

fun shuffle_from :: "(nat \<Rightarrow> rat) \<Rightarrow> nat \<Rightarrow> nat \<Rightarrow> 'a list \<Rightarrow> 'a list" where
  "shuffle_from rnd k 0 a = a"
| "shuffle_from rnd k (Suc i) a =
     shuffle_from rnd (Suc k) i (swap (Suc i) (random_index (rnd k) (Suc i)) a)"

definition shuffle :: "(nat \<Rightarrow> rat) \<Rightarrow> 'a list \<Rightarrow> 'a list" where
  "shuffle rnd arr = shuffle_from rnd 0 (length arr - 1) arr"

text \<open>\<^verbatim>\<open>rows.map((_, i) => i)\<close>\<close>

definition indices :: "'a list \<Rightarrow> json list" where
  "indices xs = map (\<lambda>i. JNum (Num (of_nat i))) [0..<length xs]"

subsection \<open>The browser's storage and the JSON codec\<close>

text \<open>
  \<^verbatim>\<open>localStorage\<close> maps keys to texts. A stored text is represented by what the
  program can observe of it: the empty text (falsy, so \<^verbatim>\<open>JSON.parse\<close> is not
  reached), a non-empty text on which \<^verbatim>\<open>JSON.parse\<close> throws, or a text that
  \<^verbatim>\<open>JSON.parse\<close> reads as the value \<open>v\<close>. Two texts that parse to the same value
  are not told apart.
\<close>

datatype stored = EmptyText | Malformed | JsonText json

type_synonym local_storage = "jsstring \<rightharpoonup> stored"

definition STORAGE_KEY :: jsstring where
  "STORAGE_KEY = str ''hitster-session''"

definition JSON_parse :: "stored \<Rightarrow> js_error + json" where
  "JSON_parse t = (case t of JsonText v \<Rightarrow> Inr v | _ \<Rightarrow> Inl SyntaxError)"

text \<open>
  What \<^verbatim>\<open>JSON.parse\<close> reads back from the text that \<^verbatim>\<open>JSON.stringify\<close> writes
  for a value: \<^verbatim>\<open>JSON.stringify\<close> writes a number that is not finite as
  \<^verbatim>\<open>null\<close>, and everything else of a JSON value as it is.
\<close>

primrec reparse :: "json \<Rightarrow> json" where
  "reparse JNull = JNull"
| "reparse (JBool b) = JBool b"
| "reparse (JNum n) = (case n of Num q \<Rightarrow> JNum (Num q) | PosInf \<Rightarrow> JNull | NegInf \<Rightarrow> JNull)"
| "reparse (JStr s) = JStr s"
| "reparse (JArr xs) = JArr (map reparse xs)"
| "reparse (JObj kvs) = JObj (map (map_prod id reparse) kvs)"

definition JSON_stringify :: "json \<Rightarrow> stored" where
  "JSON_stringify v = JsonText (reparse v)"

text \<open>The object literal \<^verbatim>\<open>{ order, index, rows }\<close>.\<close>

definition snapshot :: "json list \<Rightarrow> jsnum \<Rightarrow> json list \<Rightarrow> json" where
  "snapshot ord idx rws =
     JObj [(str ''order'', JArr ord), (str ''index'', JNum idx), (str ''rows'', JArr rws)]"

text \<open>
  \<^verbatim>\<open>parsed.rows\<close>, \<^verbatim>\<open>parsed.order\<close>, \<^verbatim>\<open>parsed.index\<close>: none of these three
  names is defined by a prototype, an array or a primitive, so the read yields the own
  property of an object and \<^verbatim>\<open>undefined\<close> otherwise.
\<close>

fun read_field :: "json \<Rightarrow> jsstring \<Rightarrow> jsvalue" where
  "read_field (JObj kvs) k = (case map_of kvs k of Some v \<Rightarrow> Val v | None \<Rightarrow> Undefined)"
| "read_field v k = Undefined"

fun Array_isArray :: "jsvalue \<Rightarrow> bool" where
  "Array_isArray (Val (JArr xs)) = True"
| "Array_isArray v = False"

fun is_number :: "jsvalue \<Rightarrow> bool" where
  "is_number (Val (JNum n)) = True"
| "is_number v = False"

text \<open>The elements of a value known to be an array, the number of one known to be a number.\<close>

fun elements :: "jsvalue \<Rightarrow> json list" where
  "elements (Val (JArr xs)) = xs"
| "elements v = []"

fun number_of :: "jsvalue \<Rightarrow> jsnum" where
  "number_of (Val (JNum n)) = n"
| "number_of v = Num 0"

subsection \<open>The component's state\<close>

text \<open>
  The \<^verbatim>\<open>useState\<close> cells and the \<^verbatim>\<open>restoredRef\<close> of \<^verbatim>\<open>App\<close>, with the
  browser's storage. \<open>deps_changed\<close> records that \<^verbatim>\<open>order\<close>, \<^verbatim>\<open>index\<close> or
  \<^verbatim>\<open>rows\<close> changed since the last render, which is when React runs the persist effect;
  \<open>warnings\<close> counts the calls of \<^verbatim>\<open>console.warn\<close> and \<open>csv_requests\<close> the
  downloads that \<^verbatim>\<open>Papa.parse\<close> has started and not completed. The player's
  \<^verbatim>\<open>playing\<close> and \<^verbatim>\<open>volume\<close> cells take no part in the session and are left out.
  \<open>crashed\<close> records that a render has thrown: React has then removed the tree, and
  neither a render nor an effect runs again. The cells keep the values that this last
  render read.
\<close>

record world =
  storage :: local_storage
  rows :: "json list"
  order :: "json list"
  index :: jsnum
  loading :: bool
  revealed :: bool
  videoLoading :: bool
  restoredRef :: bool
  deps_changed :: bool
  warnings :: nat
  csv_requests :: nat
  crashed :: bool

text \<open>
  The state setters. \<^verbatim>\<open>setOrder\<close> and \<^verbatim>\<open>setRows\<close> are only ever given a fresh
  array, which React tells apart from the old one; \<^verbatim>\<open>setIndex\<close> changes the
  dependencies when the number differs.
\<close>

definition setOrder :: "json list \<Rightarrow> world \<Rightarrow> world" where
  "setOrder v w = w\<lparr>order := v, deps_changed := True\<rparr>"

definition setRows :: "json list \<Rightarrow> world \<Rightarrow> world" where
  "setRows v w = w\<lparr>rows := v, deps_changed := True\<rparr>"

definition setIndex :: "jsnum \<Rightarrow> world \<Rightarrow> world" where
  "setIndex v w = w\<lparr>index := v, deps_changed := (deps_changed w \<or> v \<noteq> index w)\<rparr>"

definition setLoading :: "bool \<Rightarrow> world \<Rightarrow> world" where
  "setLoading v w = w\<lparr>loading := v\<rparr>"

definition setRevealed :: "bool \<Rightarrow> world \<Rightarrow> world" where
  "setRevealed v w = w\<lparr>revealed := v\<rparr>"

definition setVideoLoading :: "bool \<Rightarrow> world \<Rightarrow> world" where
  "setVideoLoading v w = w\<lparr>videoLoading := v\<rparr>"

definition localStorage_getItem :: "jsstring \<Rightarrow> world \<Rightarrow> stored option" where
  "localStorage_getItem k w = storage w k"

definition localStorage_setItem :: "jsstring \<Rightarrow> stored \<Rightarrow> world \<Rightarrow> world" where
  "localStorage_setItem k t w = w\<lparr>storage := (storage w)(k \<mapsto> t)\<rparr>"

definition console_warn :: "world \<Rightarrow> world" where
  "console_warn w = w\<lparr>warnings := Suc (warnings w)\<rparr>"

text \<open>\<^verbatim>\<open>Papa.parse(CSV_URL, {download: true, ...})\<close> starts a download and returns.\<close>

definition Papa_parse :: "world \<Rightarrow> world" where
  "Papa_parse w = w\<lparr>csv_requests := Suc (csv_requests w)\<rparr>"

subsection \<open>The restore effect\<close>

text \<open>
  The body of the \<^verbatim>\<open>try\<close> block: \<open>Inl\<close> is the exception of \<^verbatim>\<open>JSON.parse\<close>,
  \<open>Inr (Some w')\<close> the \<^verbatim>\<open>return\<close> after a snapshot was adopted, \<open>Inr None\<close> the
  end of the block with nothing done.
\<close>

definition restore_try :: "stored \<Rightarrow> world \<Rightarrow> js_error + world option" where
  "restore_try saved w =
     (case JSON_parse saved of
        Inl e \<Rightarrow> Inl e
      | Inr parsed \<Rightarrow>
          if truthy parsed
             \<and> Array_isArray (read_field parsed (str ''rows''))
             \<and> length (elements (read_field parsed (str ''rows''))) > 0
             \<and> Array_isArray (read_field parsed (str ''order''))
             \<and> length (elements (read_field parsed (str ''order''))) > 0
             \<and> is_number (read_field parsed (str ''index''))
          then
            Inr (Some
              (localStorage_setItem STORAGE_KEY
                 (JSON_stringify
                    (snapshot (elements (read_field parsed (str ''order'')))
                       (number_of (read_field parsed (str ''index'')))
                       (elements (read_field parsed (str ''rows'')))))
                 (setLoading False
                    (setRows (elements (read_field parsed (str ''rows'')))
                       (setIndex (number_of (read_field parsed (str ''index'')))
                          (setOrder (elements (read_field parsed (str ''order''))) w))))))
          else Inr None)"

text \<open>
  The first effect of \<^verbatim>\<open>App\<close>. The guard on \<^verbatim>\<open>restoredRef\<close> comes first; a
  falsy \<^verbatim>\<open>saved\<close> (no item, or the empty text) skips the \<^verbatim>\<open>try\<close>; the
  \<^verbatim>\<open>catch\<close> logs a warning and goes on to \<^verbatim>\<open>Papa.parse\<close>.
\<close>

definition restore_effect :: "world \<Rightarrow> world" where
  "restore_effect w =
     (if restoredRef w then w
      else
        let w1 = w\<lparr>restoredRef := True\<rparr> in
        case localStorage_getItem STORAGE_KEY w1 of
          None \<Rightarrow> Papa_parse w1
        | Some saved \<Rightarrow>
            if saved = EmptyText then Papa_parse w1
            else
              (case restore_try saved w1 of
                 Inl e \<Rightarrow> Papa_parse (console_warn w1)
               | Inr (Some w2) \<Rightarrow> w2
               | Inr None \<Rightarrow> Papa_parse w1))"

subsection \<open>The persist effect\<close>

text \<open>
  The second effect writes the \<^verbatim>\<open>order\<close>, \<^verbatim>\<open>index\<close> and \<^verbatim>\<open>rows\<close> of the
  render that scheduled it.
\<close>

definition persist_effect :: "json list \<Rightarrow> jsnum \<Rightarrow> json list \<Rightarrow> world \<Rightarrow> world" where
  "persist_effect ord idx rws w =
     localStorage_setItem STORAGE_KEY (JSON_stringify (snapshot ord idx rws)) w"

subsection \<open>Loading the catalog\<close>

text \<open>
  A row of \<^verbatim>\<open>result.data\<close> (parsed with \<^verbatim>\<open>header: true\<close>) maps the header's
  names to the texts of the row; a name the row lacks reads as \<^verbatim>\<open>undefined\<close>.
\<close>

type_synonym raw_row = "jsstring \<rightharpoonup> jsstring"

text \<open>\<^verbatim>\<open>a || b\<close> on texts that may be \<^verbatim>\<open>undefined\<close>: the empty text is falsy.\<close>

definition js_or :: "jsstring option \<Rightarrow> jsstring option \<Rightarrow> jsstring option" where
  "js_or a b = (case a of Some (c # cs) \<Rightarrow> a | _ \<Rightarrow> b)"

text \<open>\<^verbatim>\<open>... || ''\<close> ends every chain, so its value is a text.\<close>

definition or_empty :: "jsstring option \<Rightarrow> jsstring" where
  "or_empty a = (case js_or a (Some []) of Some t \<Rightarrow> t | None \<Rightarrow> [])"

text \<open>The class \<^verbatim>\<open>\s\<close> of a regular expression: white space and line terminators.\<close>

definition is_space :: "jschar \<Rightarrow> bool" where
  "is_space c \<longleftrightarrow>
     (0x9 \<le> c \<and> c \<le> 0xD) \<or> c = 0x20 \<or> c = 0xA0 \<or> c = 0x1680
     \<or> (0x2000 \<le> c \<and> c \<le> 0x200A)
     \<or> c = 0x2028 \<or> c = 0x2029 \<or> c = 0x202F \<or> c = 0x205F \<or> c = 0x3000 \<or> c = 0xFEFF"

text \<open>\<^verbatim>\<open>.replace(/\s+/g, '')\<close>: every maximal run of white space is replaced by nothing.\<close>

function replace_spaces :: "jsstring \<Rightarrow> jsstring" where
  "replace_spaces [] = []"
| "replace_spaces (c # cs) =
     (if is_space c then replace_spaces (dropWhile is_space cs) else c # replace_spaces cs)"
  by pat_completeness auto
termination
  by (relation "measure length") (auto simp: length_dropWhile_le less_Suc_eq_le)

text \<open>\<^verbatim>\<open>String(n)\<close> for a natural number: its decimal digits.\<close>

fun decimal :: "nat \<Rightarrow> jsstring" where
  "decimal n =
     (if n < 10 then [of_nat (48 + n)] else decimal (n div 10) @ [of_nat (48 + n mod 10)])"

text \<open>
  A track: the object that the callback of \<^verbatim>\<open>data.map\<close> builds (its \<^verbatim>\<open>id\<close> is
  \<open>track_id\<close> here, \<open>id\<close> being the identity function of the library).
\<close>

record track =
  track_id :: jsstring
  Artist :: jsstring
  Title :: jsstring
  URL :: jsstring
  Year :: jsstring

text \<open>The callback of \<^verbatim>\<open>data.map\<close>, for the row \<open>r\<close> at position \<open>i\<close>.\<close>

definition to_track :: "nat \<Rightarrow> raw_row \<Rightarrow> track" where
  "to_track i r =
     \<lparr> track_id = decimal (i + 1),
       Artist = or_empty (js_or (r (str ''Artist'')) (r (str ''artist''))),
       Title = or_empty (js_or (r (str ''Title'')) (r (str ''title''))),
       URL = replace_spaces
               (or_empty (js_or (js_or (r (str ''URL'')) (r (str ''Url''))) (r (str ''url'')))),
       Year = or_empty (js_or (r (str ''Year'')) (r (str ''year''))) \<rparr>"

text \<open>\<^verbatim>\<open>data.map(...).filter((r) => r.URL)\<close>\<close>

definition mapped :: "raw_row list \<Rightarrow> track list" where
  "mapped data =
     filter (\<lambda>t. URL t \<noteq> []) (map (\<lambda>(i, r). to_track i r) (enumerate 0 data))"

text \<open>A track as the object the callback builds, its properties in the order written.\<close>

definition track_object :: "track \<Rightarrow> json" where
  "track_object t =
     JObj [(str ''id'', JStr (track_id t)), (str ''Artist'', JStr (Artist t)),
           (str ''Title'', JStr (Title t)), (str ''URL'', JStr (URL t)),
           (str ''Year'', JStr (Year t))]"

text \<open>
  The \<^verbatim>\<open>complete\<close> callback of \<^verbatim>\<open>Papa.parse\<close>, for \<^verbatim>\<open>result.data = data\<close>
  (the name \<open>complete\<close> is taken by the library).
\<close>

definition complete_csv :: "(nat \<Rightarrow> rat) \<Rightarrow> raw_row list \<Rightarrow> world \<Rightarrow> world" where
  "complete_csv rnd data w =
     (let rws = map track_object (mapped data);
          ord = shuffle rnd (indices rws)
      in localStorage_setItem STORAGE_KEY (JSON_stringify (snapshot ord (Num 0) rws))
           (setLoading False (setIndex (Num 0) (setOrder ord (setRows rws w)))))"

subsection \<open>The handlers\<close>

text \<open>\<^verbatim>\<open>startNew\<close>\<close>

definition startNew :: "(nat \<Rightarrow> rat) \<Rightarrow> world \<Rightarrow> world" where
  "startNew rnd w =
     (if length (rows w) = 0 then w
      else
        let ord = shuffle rnd (indices (rows w))
        in localStorage_setItem STORAGE_KEY (JSON_stringify (snapshot ord (Num 0) (rows w)))
             (setVideoLoading True (setRevealed False (setIndex (Num 0) (setOrder ord w)))))"

text \<open>\<^verbatim>\<open>order.length - 1\<close>\<close>

fun minus_one :: "jsnum \<Rightarrow> jsnum" where
  "minus_one (Num q) = Num (q - 1)"
| "minus_one PosInf = PosInf"
| "minus_one NegInf = NegInf"

text \<open>
  \<^verbatim>\<open>next\<close> (a keyword of the proof language, hence \<open>next_card\<close>). The updater given
  to \<^verbatim>\<open>setIndex\<close> runs on the latest index; the handler runs on the render that precedes
  the click, so \<^verbatim>\<open>order\<close> is the latest too.
\<close>

definition next_card :: "world \<Rightarrow> world" where
  "next_card w =
     (if length (order w) = 0 then w
      else
        setIndex
          (Math_min (plus_one (index w)) (Math_max (Num 0) (minus_one (array_length (order w)))))
          (setVideoLoading True (setRevealed False w)))"

text \<open>The \<^verbatim>\<open>Reveal\<close> button.\<close>

definition reveal :: "world \<Rightarrow> world" where
  "reveal w = setRevealed True w"

subsection \<open>The current track\<close>

text \<open>
  \<^verbatim>\<open>a[n]\<close> for a number \<open>n\<close>: the element when \<open>n\<close> is a position of \<open>a\<close>,
  \<^verbatim>\<open>undefined\<close> (here \<open>None\<close>) for every other number, whose text names no property of
  an array.
\<close>

fun element_at :: "json list \<Rightarrow> jsnum \<Rightarrow> json option" where
  "element_at xs (Num q) =
     (if 0 \<le> q \<and> of_int \<lfloor>q\<rfloor> = q \<and> nat \<lfloor>q\<rfloor> < length xs then Some (xs ! nat \<lfloor>q\<rfloor>) else None)"
| "element_at xs PosInf = None"
| "element_at xs NegInf = None"

text \<open>
  A text is the name of position \<open>n\<close> when it is the decimal numeral of \<open>n\<close>, without
  leading zeros.
\<close>

definition is_digit :: "jschar \<Rightarrow> bool" where
  "is_digit c \<longleftrightarrow> 48 \<le> c \<and> c \<le> 57"

definition digits_value :: "jsstring \<Rightarrow> nat" where
  "digits_value s = foldl (\<lambda>n c. 10 * n + (unat c - 48)) 0 s"

definition index_of :: "jsstring \<Rightarrow> nat option" where
  "index_of s =
     (if s \<noteq> [] \<and> list_all is_digit s \<and> (length s = 1 \<or> hd s \<noteq> 48)
      then Some (digits_value s) else None)"

text \<open>
  Whether the conversion of a value to a text throws. An object made by \<^verbatim>\<open>JSON.parse\<close>
  with an own property \<^verbatim>\<open>toString\<close> has no callable \<^verbatim>\<open>toString\<close>, and the
  inherited \<^verbatim>\<open>valueOf\<close> returns the object, so the conversion ends in a
  \<^verbatim>\<open>TypeError\<close>; an array joins the texts of its elements.
\<close>

fun to_string_throws :: "json \<Rightarrow> bool" where
  "to_string_throws (JObj kvs) = (map_of kvs (str ''toString'') \<noteq> None)"
| "to_string_throws (JArr ys) = list_ex to_string_throws ys"
| "to_string_throws v = False"

text \<open>
  \<^verbatim>\<open>a[k]\<close> for a JSON value \<open>k\<close>, which is first converted to a property name:
  a number as \<open>element_at\<close>; a text by the name it is (a position, \<^verbatim>\<open>length\<close>, or a
  name left to the prototype chain); \<^verbatim>\<open>null\<close>, a boolean and an object without
  \<^verbatim>\<open>toString\<close> of its own to the names \<^verbatim>\<open>null\<close>, \<^verbatim>\<open>true\<close>, \<^verbatim>\<open>false\<close> and
  \<^verbatim>\<open>[object Object]\<close>, which no array has; an array to the texts of its elements joined
  by commas, which is the text of the element when there is one element, the empty text
  when there is none or it is \<^verbatim>\<open>null\<close>, and otherwise holds a comma.
\<close>

fun property_at :: "json list \<Rightarrow> json \<Rightarrow> js_error + jsvalue" where
  "property_at xs (JNum n) = Inr (case element_at xs n of Some v \<Rightarrow> Val v | None \<Rightarrow> Undefined)"
| "property_at xs (JStr s) =
     Inr (case index_of s of
            Some n \<Rightarrow> if n < length xs then Val (xs ! n) else Undefined
          | None \<Rightarrow> if s = str ''length'' then Val (JNum (array_length xs)) else Inherited s)"
| "property_at xs JNull = Inr Undefined"
| "property_at xs (JBool b) = Inr Undefined"
| "property_at xs (JObj kvs) =
     (if to_string_throws (JObj kvs) then Inl TypeError else Inr Undefined)"
| "property_at xs (JArr []) = Inr Undefined"
| "property_at xs (JArr [y]) = (if y = JNull then Inr Undefined else property_at xs y)"
| "property_at xs (JArr (y # z # zs)) =
     (if to_string_throws (JArr (y # z # zs)) then Inl TypeError else Inr Undefined)"

text \<open>\<^verbatim>\<open>const current = rows[order[index]]\<close>; the name of \<^verbatim>\<open>undefined\<close> is no property of an array.\<close>

definition current :: "world \<Rightarrow> js_error + jsvalue" where
  "current w =
     (case element_at (order w) (index w) of
        None \<Rightarrow> Inr Undefined
      | Some k \<Rightarrow> property_at (rows w) k)"

subsection \<open>Renders, startup and the state machine\<close>

text \<open>
  A render with the effects that follow it. The body of \<^verbatim>\<open>App\<close> first reads
  \<^verbatim>\<open>rows[order[index]]\<close>; when that read throws, React removes the tree and no effect
  of this render runs. Otherwise the persist effect runs when one of its dependencies
  \<^verbatim>\<open>[order, index, rows]\<close> changed.

  Of the render only this read is embedded. The elements that the body returns are taken
  to be drawn without a fault. React refuses an object as a child, and a track restored
  from the storage can hold one in the fields that are drawn after Reveal; but the
  dependencies of the persist effect have not changed in a render that follows Reveal, so
  the storage is then as it is after a render that completes. What \<^verbatim>\<open>ReactPlayer\<close>, a
  library, does with the \<^verbatim>\<open>URL\<close> of a restored track is an assumption.
\<close>

definition commit :: "world \<Rightarrow> world" where
  "commit w =
     (if crashed w then w
      else
        case current w of
          Inl e \<Rightarrow> w\<lparr>crashed := True\<rparr>
        | Inr v \<Rightarrow>
            if deps_changed w
            then (persist_effect (order w) (index w) (rows w) w)\<lparr>deps_changed := False\<rparr>
            else w)"

text \<open>The first render: the initial values of the \<^verbatim>\<open>useState\<close> and \<^verbatim>\<open>useRef\<close> calls.\<close>

definition initial :: "local_storage \<Rightarrow> world" where
  "initial store =
     \<lparr> storage = store, rows = [], order = [], index = Num 0, loading = True,
       revealed = False, videoLoading = True, restoredRef = False, deps_changed = False,
       warnings = 0, csv_requests = 0, crashed = False \<rparr>"

text \<open>
  The effects of the first render, in the order of the source: the restore effect, then
  the persist effect on the \<^verbatim>\<open>order\<close>, \<^verbatim>\<open>index\<close> and \<^verbatim>\<open>rows\<close> of that render.
\<close>

definition mount_effects :: "json list \<Rightarrow> jsnum \<Rightarrow> json list \<Rightarrow> world \<Rightarrow> world" where
  "mount_effects ord idx rws w = persist_effect ord idx rws (restore_effect w)"

text \<open>
  Startup on the storage \<open>store\<close>: the first render reads \<^verbatim>\<open>rows[order[index]]\<close>
  of the initial cells, which is \<^verbatim>\<open>undefined\<close>; its effects run once, or twice under
  \<^verbatim>\<open>StrictMode\<close>; and the state they set is rendered.
\<close>

definition startup :: "bool \<Rightarrow> local_storage \<Rightarrow> world" where
  "startup strict store =
     (let w0 = initial store;
          once = mount_effects (order w0) (index w0) (rows w0) w0;
          twice = mount_effects (order w0) (index w0) (rows w0) once
      in commit (if strict then twice else once))"

datatype event =
    Complete "nat \<Rightarrow> rat" "raw_row list"
  | StartNew "nat \<Rightarrow> rat"
  | Reveal
  | Next

fun handle :: "event \<Rightarrow> world \<Rightarrow> world" where
  "handle (Complete rnd data) w = complete_csv rnd data (w\<lparr>csv_requests := csv_requests w - 1\<rparr>)"
| "handle (StartNew rnd) w = startNew rnd w"
| "handle Reveal w = reveal w"
| "handle Next w = next_card w"

text \<open>
  React renders again when a handler or a callback has changed a state cell. An array
  given to \<^verbatim>\<open>setOrder\<close> or \<^verbatim>\<open>setRows\<close> is always a new one.
\<close>

definition rerenders :: "world \<Rightarrow> world \<Rightarrow> bool" where
  "rerenders w w' \<longleftrightarrow>
     deps_changed w' \<or> loading w' \<noteq> loading w \<or> revealed w' \<noteq> revealed w
     \<or> videoLoading w' \<noteq> videoLoading w"

text \<open>
  An event: the handler or the callback, and the render that follows it if there is one.
  The handlers are embedded as functions of every state, also of one whose tree is gone;
  no render follows there.
\<close>

definition step :: "event \<Rightarrow> world \<Rightarrow> world" where
  "step e w = (let w' = handle e w in if rerenders w w' then commit w' else w')"

text \<open>
  The states the component can be in after a render, when started on \<open>store\<close>. A download
  completes only when one is under way; the buttons are taken to be clickable in every
  state, which is more than the page offers: it draws Reveal and Next only while there is
  a current track, and nothing at all once a render has thrown. The states of the page
  are among these.
\<close>

inductive reachable :: "local_storage \<Rightarrow> world \<Rightarrow> bool" for store :: local_storage where
  start: "reachable store (startup strict store)"
| csv: "reachable store w \<Longrightarrow> 0 < csv_requests w \<Longrightarrow> unit_interval rnd
         \<Longrightarrow> reachable store (step (Complete rnd data) w)"
| new: "reachable store w \<Longrightarrow> unit_interval rnd \<Longrightarrow> reachable store (step (StartNew rnd) w)"
| shown: "reachable store w \<Longrightarrow> reachable store (step Reveal w)"
| advance: "reachable store w \<Longrightarrow> reachable store (step Next w)"

code_pred reachable .

subsection \<open>The properties of the specification\<close>

text \<open>
  A valid snapshot, in the words of the specification: the item deserializes, and the
  value has a \<^verbatim>\<open>rows\<close> field that is a non-empty sequence, an \<^verbatim>\<open>order\<close> field that
  is a non-empty sequence and an \<^verbatim>\<open>index\<close> field that is a number. The result is the
  triple (rows, order, index) of a valid snapshot.
\<close>

definition valid_snapshot :: "stored option \<Rightarrow> (json list \<times> json list \<times> jsnum) option" where
  "valid_snapshot item =
     (case item of
        Some (JsonText (JObj kvs)) \<Rightarrow>
          (case (map_of kvs (str ''rows''), map_of kvs (str ''order''), map_of kvs (str ''index'')) of
             (Some (JArr r), Some (JArr ord), Some (JNum i)) \<Rightarrow>
               if r \<noteq> [] \<and> ord \<noteq> [] then Some (r, ord, i) else None
           | _ \<Rightarrow> None)
      | _ \<Rightarrow> None)"

text \<open>A parse failure: the item is there, is not empty, and \<^verbatim>\<open>JSON.parse\<close> throws on it.\<close>

definition parse_fails :: "stored option \<Rightarrow> bool" where
  "parse_fails item \<longleftrightarrow> item = Some Malformed"

text \<open>A number is a position of an array: an integer \<open>i\<close> with \<open>0 \<le> i < length\<close>.\<close>

definition position_of :: "'a list \<Rightarrow> jsnum \<Rightarrow> bool" where
  "position_of xs i =
     (case i of
        Num q \<Rightarrow> of_int \<lfloor>q\<rfloor> = q \<and> 0 \<le> q \<and> q < of_nat (length xs)
      | PosInf \<Rightarrow> False
      | NegInf \<Rightarrow> False)"

text \<open>
  The invariant of the cursor: unless \<open>order\<close> is empty, \<open>index\<close> is a position of
  \<open>order\<close>.
\<close>

definition cursor_in_range :: "world \<Rightarrow> bool" where
  "cursor_in_range w = (if order w = [] then True else position_of (order w) (index w))"

text \<open>The same of a valid snapshot in the storage, if there is one.\<close>

definition stored_cursor_in_range :: "local_storage \<Rightarrow> bool" where
  "stored_cursor_in_range store =
     (case valid_snapshot (store STORAGE_KEY) of
        Some (r, ord, i) \<Rightarrow> position_of ord i
      | None \<Rightarrow> True)"

text \<open>The storage holds the serialization of the current triple under the session key.\<close>

definition storage_matches :: "world \<Rightarrow> bool" where
  "storage_matches w \<longleftrightarrow>
     storage w STORAGE_KEY = Some (JSON_stringify (snapshot (order w) (index w) (rows w)))"

text \<open>Every number in the value is finite.\<close>

primrec finite_json :: "json \<Rightarrow> bool" where
  "finite_json JNull = True"
| "finite_json (JBool b) = True"
| "finite_json (JNum n) = (case n of Num q \<Rightarrow> True | PosInf \<Rightarrow> False | NegInf \<Rightarrow> False)"
| "finite_json (JStr s) = True"
| "finite_json (JArr xs) = list_all finite_json xs"
| "finite_json (JObj kvs) = list_all (pred_prod (\<lambda>k. True) finite_json) kvs"



text \<open>
  The shuffle, in the words of the specification: \<open>i\<close> runs from the last position down
  to 1, and each step draws a position for \<open>i\<close> and swaps the two. \<open>draws rnd n\<close>
  lists the pairs \<open>(i, j)\<close> of the steps on an array of length \<open>n\<close>, in their order;
  the \<open>k\<close>-th step takes the \<open>k\<close>-th value of \<^verbatim>\<open>Math.random()\<close>.
\<close>

definition draws :: "(nat \<Rightarrow> rat) \<Rightarrow> nat \<Rightarrow> (nat \<times> nat) list" where
  "draws rnd n = map (\<lambda>k. (n - 1 - k, random_index (rnd k) (n - 1 - k))) [0..<n - 1]"

definition fisher_yates :: "(nat \<Rightarrow> rat) \<Rightarrow> 'a list \<Rightarrow> 'a list" where
  "fisher_yates rnd a = foldl (\<lambda>b (i, j). swap i j b) a (draws rnd (length a))"



subsection \<open>The two outcomes of the restore effect\<close>

text \<open>
  The state after the restore effect has adopted the triple \<open>(r, ord, i)\<close>, and the state
  after it has fallen through to \<^verbatim>\<open>Papa.parse\<close>.
\<close>

definition adopted :: "json list \<Rightarrow> json list \<Rightarrow> jsnum \<Rightarrow> world \<Rightarrow> world" where
  "adopted r ord i w =
     w\<lparr>storage := (storage w)(STORAGE_KEY \<mapsto> JSON_stringify (snapshot ord i r)),
       rows := r, order := ord, index := i, loading := False, restoredRef := True,
       deps_changed := True\<rparr>"

definition fell_through :: "world \<Rightarrow> world" where
  "fell_through w =
     w\<lparr>restoredRef := True, csv_requests := Suc (csv_requests w),
       warnings := (if parse_fails (storage w STORAGE_KEY) then Suc (warnings w) else warnings w)\<rparr>"

subsection \<open>Example states\<close>

text \<open>A catalog of three rows before its first shuffle, and a session of three cards.\<close>

definition three_rows :: world where
  "three_rows = (initial Map.empty)\<lparr>rows := [JNull, JNull, JNull]\<rparr>"

definition three_cards :: world where
  "three_cards =
     (initial Map.empty)\<lparr>rows := [JNull, JNull, JNull],
       order := [JNum (Num 0), JNum (Num 1), JNum (Num 2)], revealed := True\<rparr>"

text \<open>
  Stored sessions: one as the program writes it; one whose index is the literal
  \<^verbatim>\<open>1e999\<close>; one whose index is 5 for an order of one entry; one whose index is
  \<^verbatim>\<open>1.5\<close>; one whose order holds the object \<^verbatim>\<open>{"toString": 1}\<close>; and one that
  holds it as the second entry.
\<close>

definition saved_session :: local_storage where
  "saved_session =
     [STORAGE_KEY \<mapsto>
        JsonText (snapshot [JNum (Num 1), JNum (Num 0)] (Num 1) [JStr (str ''a''), JStr (str ''b'')])]"

definition overflowed_session :: local_storage where
  "overflowed_session =
     [STORAGE_KEY \<mapsto> JsonText (snapshot [JNum (Num 0)] PosInf [JStr (str ''a'')])]"

definition stale_session :: local_storage where
  "stale_session =
     [STORAGE_KEY \<mapsto> JsonText (snapshot [JNum (Num 0)] (Num 5) [JStr (str ''a'')])]"

definition fractional_session :: local_storage where
  "fractional_session =
     [STORAGE_KEY \<mapsto>
        JsonText (snapshot [JNum (Num 7), JNum (Num 0)] (Num (3 / 2)) [JStr (str ''a'')])]"

definition poisoned_session :: local_storage where
  "poisoned_session =
     [STORAGE_KEY \<mapsto>
        JsonText (snapshot [JObj [(str ''toString'', JNum (Num 1))]] (Num 0) [JStr (str ''a'')])]"


text \<open>
  Values of \<^verbatim>\<open>Math.random()\<close>: one half at the first call and 0 after it; the
  double that \<^verbatim>\<open>0.3333333333333333\<close> denotes.
\<close>

definition half_then_zero :: "nat \<Rightarrow> rat" where
  "half_then_zero k = (if k = 0 then 1 / 2 else 0)"

definition third :: rat where
  "third = 6004799503160661 / 2 ^ 54"

text \<open>A double a little above one quarter, whose product with 31 rounds up to 8.\<close>

definition quarter_up :: rat where
  "quarter_up = 1162219258676257 / 2 ^ 52"


section \<open>Verification\<close>

subsection \<open>Rounding\<close>

lemma floor_rat_numeral: "\<lfloor>numeral a / numeral b :: rat\<rfloor> = numeral a div numeral b"
  by (metis floor_divide_of_int_eq of_int_numeral)

lemma floor_three_halves: "\<lfloor>3 / 2 :: rat\<rfloor> = 1"
  by (simp add: floor_rat_numeral)

lemma ceiling_rat_of_int: "\<lceil>of_int a / of_int b :: rat\<rceil> = - ((- a) div b)"
proof -
  have "\<lceil>of_int a / of_int b :: rat\<rceil> = - \<lfloor>of_int (- a) / of_int b :: rat\<rfloor>"
    by (simp add: ceiling_def)
  then show ?thesis by (simp only: floor_divide_of_int_eq)
qed

lemma ceiling_rat_numeral:
  "\<lceil>numeral a / numeral b :: rat\<rceil> = - ((- numeral a) div numeral b)"
  by (metis ceiling_rat_of_int of_int_numeral)

lemma bitlen_eq: "2 ^ n \<le> a \<Longrightarrow> a < 2 * 2 ^ n \<Longrightarrow> bitlen a = int n + 1"
  using bitlen_twopow_add_eq [of "a - 2 ^ n" n] by simp

lemma bitlen_1: "bitlen 1 = 1"
  using bitlen_eq [of 0 1] by simp

lemma bitlen_3: "bitlen 3 = 2"
  using bitlen_eq [of 1 3] by simp

text \<open>The rounding error is at most half a unit in the last place.\<close>

lemma round_even_le: "of_int (round_even q) \<le> q + 1 / 2"
  unfolding round_even_def by (auto; linarith)

lemma round_even_ge: "q - 1 / 2 \<le> of_int (round_even q)"
  unfolding round_even_def by (auto; linarith)

lemma ulp_pos: "0 < ulp x"
  by (simp add: ulp_def)

lemma round_double_le: "round_double x \<le> x + ulp x / 2"
proof -
  have "of_int (round_even (x / ulp x)) * ulp x \<le> (x / ulp x + 1 / 2) * ulp x"
    using round_even_le [of "x / ulp x"] ulp_pos [of x] by (simp only: mult_le_cancel_right_pos)
  also have "\<dots> = x + ulp x / 2"
    using ulp_pos [of x] by (simp add: field_simps)
  finally show ?thesis by (simp only: round_double_def)
qed

lemma round_double_ge: "x - ulp x / 2 \<le> round_double x"
proof -
  have "(x / ulp x - 1 / 2) * ulp x \<le> of_int (round_even (x / ulp x)) * ulp x"
    using round_even_ge [of "x / ulp x"] ulp_pos [of x] by (simp only: mult_le_cancel_right_pos)
  moreover have "(x / ulp x - 1 / 2) * ulp x = x - ulp x / 2"
    using ulp_pos [of x] by (simp add: field_simps)
  ultimately show ?thesis by (simp only: round_double_def)
qed

text \<open>The exponent of a positive number is the exponent of a power of two below it.\<close>

lemma exponent_le:
  assumes "0 < x"
  shows "2 powi exponent x \<le> x"
proof (cases "1 \<le> x")
  case True
  then have pos: "0 < \<lfloor>x\<rfloor>" by linarith
  have b: "1 \<le> bitlen \<lfloor>x\<rfloor>"
    using pos bitlen_eq_zero_iff [of "\<lfloor>x\<rfloor>"] bitlen_nonneg [of "\<lfloor>x\<rfloor>"] by linarith
  have "(2::int) ^ nat (bitlen \<lfloor>x\<rfloor> - 1) \<le> \<lfloor>x\<rfloor>"
    using bitlen_bounds [OF pos] by simp
  then have "(of_int ((2::int) ^ nat (bitlen \<lfloor>x\<rfloor> - 1)) :: rat) \<le> of_int \<lfloor>x\<rfloor>"
    by (simp only: of_int_le_iff)
  also have "\<dots> \<le> x" by simp
  finally have "(2::rat) ^ nat (bitlen \<lfloor>x\<rfloor> - 1) \<le> x" by simp
  moreover have "(2::rat) powi (bitlen \<lfloor>x\<rfloor> - 1) = 2 ^ nat (bitlen \<lfloor>x\<rfloor> - 1)"
    using b by (simp add: power_int_def)
  ultimately show ?thesis using True by (simp add: exponent_def)
next
  case False
  let ?m = "\<lceil>1 / x\<rceil>"
  let ?k = "bitlen (?m - 1)"
  have k0: "0 \<le> ?k" by (rule bitlen_nonneg)
  have "?m - 1 < 2 ^ nat ?k"
    using bitlen_le_iff_power [of "?m - 1" ?k] by simp
  then have "?m \<le> 2 ^ nat ?k" by simp
  then have "(of_int ?m :: rat) \<le> 2 ^ nat ?k"
    by (metis of_int_le_iff of_int_numeral of_int_power)
  moreover have "1 / x \<le> of_int ?m" by (rule le_of_int_ceiling)
  ultimately have "1 / x \<le> 2 ^ nat ?k" by (rule order_trans [rotated])
  then have "1 \<le> 2 ^ nat ?k * x"
    using assms by (simp add: pos_divide_le_eq)
  then have "1 / 2 ^ nat ?k \<le> x"
    by (simp add: pos_divide_le_eq mult.commute)
  moreover have "(2::rat) powi (- ?k) = 1 / 2 ^ nat ?k"
    using k0 by (simp add: power_int_def field_simps)
  ultimately show ?thesis using False by (simp add: exponent_def)
qed

lemma exponent_gt:
  assumes "0 < x"
  shows "x < 2 powi (exponent x + 1)"
proof (cases "1 \<le> x")
  case True
  then have pos: "0 < \<lfloor>x\<rfloor>" by linarith
  have n: "0 \<le> bitlen \<lfloor>x\<rfloor>" by (rule bitlen_nonneg)
  have "\<lfloor>x\<rfloor> + 1 \<le> 2 ^ nat (bitlen \<lfloor>x\<rfloor>)"
    using bitlen_bounds [OF pos] by simp
  then have "(of_int (\<lfloor>x\<rfloor> + 1) :: rat) \<le> of_int (2 ^ nat (bitlen \<lfloor>x\<rfloor>))"
    by (simp only: of_int_le_iff)
  then have "(of_int \<lfloor>x\<rfloor> :: rat) + 1 \<le> 2 ^ nat (bitlen \<lfloor>x\<rfloor>)"
    by simp
  moreover have "x < of_int \<lfloor>x\<rfloor> + 1" by linarith
  ultimately have "x < 2 ^ nat (bitlen \<lfloor>x\<rfloor>)" by linarith
  moreover have "(2::rat) powi (bitlen \<lfloor>x\<rfloor> - 1 + 1) = 2 ^ nat (bitlen \<lfloor>x\<rfloor>)"
    using n by (simp add: power_int_def)
  ultimately show ?thesis using True by (simp add: exponent_def)
next
  case False
  let ?m = "\<lceil>1 / x\<rceil>"
  let ?k = "bitlen (?m - 1)"
  have "1 < 1 / x" using False assms by (simp add: field_simps)
  then have m: "0 < ?m - 1" by linarith
  then have k: "1 \<le> ?k"
    using bitlen_eq_zero_iff [of "?m - 1"] bitlen_nonneg [of "?m - 1"] by linarith
  have "(2::int) ^ nat (?k - 1) \<le> ?m - 1"
    using bitlen_bounds [OF m] by simp
  then have "(of_int (2 ^ nat (?k - 1)) :: rat) \<le> of_int (?m - 1)"
    by (simp only: of_int_le_iff)
  then have "(2::rat) ^ nat (?k - 1) \<le> of_int ?m - 1"
    by simp
  moreover have "of_int ?m - 1 < 1 / x" by linarith
  ultimately have "(2::rat) ^ nat (?k - 1) < 1 / x" by linarith
  then have "2 ^ nat (?k - 1) * x < 1"
    using assms by (simp add: pos_less_divide_eq)
  then have "x < 1 / 2 ^ nat (?k - 1)"
    by (simp add: pos_less_divide_eq mult.commute)
  moreover have "(2::rat) powi (- ?k + 1) = 1 / 2 ^ nat (?k - 1)"
  proof -
    have "- ?k + 1 = - int (nat (?k - 1))" using k by simp
    then have "(2::rat) powi (- ?k + 1) = 2 powi (- int (nat (?k - 1)))" by simp
    also have "\<dots> = 1 / 2 ^ nat (?k - 1)"
      by (simp only: power_int_minus power_int_of_nat) (simp add: field_simps)
    finally show ?thesis .
  qed
  ultimately show ?thesis using False by (simp add: exponent_def)
qed

lemma ulp_le:
  assumes "0 < x"
  shows "ulp x \<le> max (x / 2 ^ 52) (1 / 2 ^ 1074)"
proof (cases "- 1022 \<le> exponent x")
  case True
  have "ulp x = 2 powi (exponent x - 52)"
    using True assms by (simp add: ulp_def max_def)
  also have "\<dots> = 2 powi exponent x / 2 ^ 52"
    by (simp add: power_int_diff)
  also have "\<dots> \<le> x / 2 ^ 52"
    using exponent_le [OF assms] by (simp add: divide_right_mono)
  finally show ?thesis by simp
next
  case False
  then have "ulp x = 2 powi (- 1074)"
    using assms by (simp add: ulp_def max_def)
  also have "\<dots> = 1 / 2 ^ 1074"
    by (simp add: power_int_minus field_simps)
  finally show ?thesis by simp
qed

text \<open>
  The rounded product of a number up to \<open>1 - 2^(-53)\<close> and \<open>n\<close> stays below \<open>n\<close>: the
  exact product is at most \<open>n - n / 2^53\<close>, and rounding adds at most
  half a unit, which is at most the \<open>2^53\<close>-th part of the product.
\<close>

lemma times_below:
  assumes "0 \<le> r" "r \<le> 1 - 1 / 2 ^ 53" "1 \<le> n"
  shows "round_double (r * n) < n"
proof (cases "r = 0")
  case True
  have "round_double 0 = 0" by (simp add: round_double_def round_even_def)
  then show ?thesis using True assms(3) by simp
next
  case False
  let ?x = "r * n"
  have x: "0 < ?x" using False assms by simp
  have xn: "?x \<le> n * (1 - 1 / 2 ^ 53)"
    using assms by (simp add: mult.commute mult_left_mono)
  have "round_double ?x \<le> ?x + ulp ?x / 2" by (rule round_double_le)
  also have "\<dots> \<le> ?x + max (?x / 2 ^ 52) (1 / 2 ^ 1074) / 2"
    using ulp_le [OF x] by simp
  also have "\<dots> < n"
  proof (cases "?x / 2 ^ 52 \<le> 1 / 2 ^ 1074")
    case True
    have "?x \<le> 2 ^ 52 / 2 ^ 1074" using True by (simp add: field_simps)
    also have "\<dots> \<le> (1 / 4 :: rat)" by simp
    finally have "?x \<le> 1 / 4" .
    moreover have "(1 / 2 ^ 1074 :: rat) / 2 \<le> 1 / 4" by simp
    ultimately have "?x + (1 / 2 ^ 1074) / 2 \<le> 1 / 2" by linarith
    then show ?thesis using True assms(3) by (simp add: max_def)
  next
    case False
    have "?x + ?x / 2 ^ 52 / 2 = ?x * (1 + 1 / 2 ^ 53)" by (simp add: field_simps)
    also have "\<dots> \<le> n * (1 - 1 / 2 ^ 53) * (1 + 1 / 2 ^ 53)"
      by (rule mult_right_mono [OF xn]) simp
    also have "\<dots> = n * (1 - 1 / 2 ^ 106)" by (simp add: field_simps)
    also have "\<dots> < n" using assms(3) by simp
    finally show ?thesis using False by (simp add: max_def)
  qed
  finally show ?thesis .
qed

text \<open>The largest double below 1 is \<open>1 - 2^(-53)\<close>.\<close>

lemma double_below_one:
  assumes "is_double r" "0 \<le> r" "r < 1"
  shows "r \<le> 1 - 1 / 2 ^ 53"
proof (cases "r < 1 / 2")
  case True
  then show ?thesis by simp
next
  case False
  then have half: "1 / 2 \<le> r" by simp
  have pos: "0 < r" using half by simp
  have "1 < 1 / r" using assms(3) pos by (simp add: field_simps)
  moreover have "1 / r \<le> 2" using half pos by (simp add: field_simps)
  ultimately have c: "\<lceil>1 / r\<rceil> = 2" by (simp add: ceiling_eq_iff)
  have e: "exponent \<bar>r\<bar> = - 1"
    using assms(3) pos c by (simp add: exponent_def bitlen_1)
  have u: "ulp r = 1 / 2 ^ 53"
    unfolding ulp_def e by (simp add: power_int_minus field_simps)
  define m where "m = round_even (r / ulp r)"
  have "of_int m * ulp r = r"
    using assms(1) by (simp only: is_double_def round_double_def m_def)
  then have r: "r = of_int m / 2 ^ 53"
    unfolding u by simp
  then have "of_int m < (2 ^ 53 :: rat)" using assms(3) by (simp add: field_simps)
  then have "m < 2 ^ 53" by (metis of_int_less_iff of_int_numeral of_int_power)
  then have "m \<le> 2 ^ 53 - 1" by simp
  then have "(of_int m :: rat) \<le> of_int (2 ^ 53 - 1)"
    by (simp only: of_int_le_iff)
  then have "(of_int m :: rat) \<le> 2 ^ 53 - 1" by simp
  then show ?thesis unfolding r by (simp add: field_simps)
qed

text \<open>Some doubles and some rounded products.\<close>

lemma round_even_ties: "round_even (5 / 2) = 2" "round_even (7 / 2) = 4" "round_even (9 / 4) = 2"
  by (simp_all add: round_even_def floor_rat_numeral)

lemma round_double_0: "round_double 0 = 0"
  by (simp add: round_double_def round_even_def)

lemma is_double_0: "is_double 0"
  by (simp add: is_double_def round_double_0)

lemma exponent_half: "exponent (1 / 2) = - 1"
  by (simp add: exponent_def bitlen_1)

lemma ulp_half: "ulp (1 / 2) = 1 / 2 ^ 53"
  by (simp add: ulp_def exponent_half power_int_minus field_simps)

lemma is_double_half: "is_double (1 / 2)"
  by (simp add: is_double_def round_double_def ulp_half round_even_def)

lemma exponent_three_halves: "exponent (3 / 2) = 0"
  by (simp add: exponent_def bitlen_1 floor_rat_numeral)

lemma ulp_three_halves: "ulp (3 / 2) = 1 / 2 ^ 52"
  by (simp add: ulp_def exponent_three_halves power_int_minus field_simps)

lemma round_double_three_halves: "round_double (3 / 2) = 3 / 2"
  by (simp add: round_double_def ulp_three_halves round_even_def)

text \<open>
  \<^verbatim>\<open>0.3333333333333333 * 3\<close> is 1: the exact product \<open>1 - 2^(-54)\<close> lies half-way
  between the doubles \<open>1 - 2^(-53)\<close> and 1, and the mantissa of 1 is the even one.
\<close>

lemma exponent_third: "exponent \<bar>third\<bar> = - 2"
  by (simp add: third_def exponent_def bitlen_3 ceiling_rat_numeral)

lemma is_double_third: "is_double third"
  unfolding is_double_def round_double_def ulp_def exponent_third
  by (simp add: third_def power_int_minus round_even_def)

lemma third_product: "third * (of_nat 2 + 1) = 18014398509481983 / 2 ^ 54"
  by (simp add: third_def)

lemma exponent_third_product: "exponent \<bar>18014398509481983 / 2 ^ 54\<bar> = - 1"
  by (simp add: exponent_def bitlen_1 ceiling_rat_numeral)

lemma ulp_third_product: "ulp (18014398509481983 / 2 ^ 54) = 1 / 2 ^ 53"
  unfolding ulp_def exponent_third_product by (simp add: power_int_minus field_simps)

lemma round_double_third_product: "round_double (18014398509481983 / 2 ^ 54) = 1"
  unfolding round_double_def ulp_third_product by (simp add: round_even_def floor_rat_numeral)

text \<open>
  The product of \<open>quarter_up\<close> and 31 is \<open>8 - 2^(-52)\<close>, between the doubles
  \<open>8 - 2^(-50)\<close> and 8 and nearer to 8.
\<close>

lemma bitlen_7: "bitlen 7 = 3"
  using bitlen_eq [of 2 7] by simp

lemma exponent_quarter_up: "exponent \<bar>quarter_up\<bar> = - 2"
  by (simp add: quarter_up_def exponent_def bitlen_3 ceiling_rat_numeral)

lemma is_double_quarter_up: "is_double quarter_up"
  unfolding is_double_def round_double_def ulp_def exponent_quarter_up
  by (simp add: quarter_up_def power_int_minus round_even_def)

lemma quarter_up_product: "quarter_up * (of_nat 30 + 1) = 36028797018963967 / 2 ^ 52"
  by (simp add: quarter_up_def)

lemma exponent_quarter_up_product: "exponent \<bar>36028797018963967 / 2 ^ 52\<bar> = 2"
  by (simp add: exponent_def bitlen_7 floor_rat_numeral)

lemma ulp_quarter_up_product: "ulp (36028797018963967 / 2 ^ 52) = 1 / 2 ^ 50"
  unfolding ulp_def exponent_quarter_up_product by (simp add: power_int_minus field_simps)

lemma round_double_quarter_up_product: "round_double (36028797018963967 / 2 ^ 52) = 8"
  unfolding round_double_def ulp_quarter_up_product by (simp add: round_even_def floor_rat_numeral)

subsection \<open>The shuffle\<close>

lemma length_swap: "length (swap i j a) = length a"
  by (simp add: swap_def)

lemma mset_swap_eq: "i < length a \<Longrightarrow> j < length a \<Longrightarrow> mset (swap i j a) = mset a"
  unfolding swap_def by (simp add: mset_swap)

lemma random_index_le:
  assumes "is_double r" "0 \<le> r" "r < 1"
  shows "random_index r i \<le> i"
proof -
  have "round_double (r * (of_nat i + 1)) < of_nat i + 1"
    using assms(2) double_below_one [OF assms] by (rule times_below) simp
  then have "\<lfloor>round_double (r * (of_nat i + 1))\<rfloor> < int i + 1"
    using floor_less_iff [of "round_double (r * (of_nat i + 1))" "int i + 1"] by simp
  then show ?thesis
    unfolding random_index_def by linarith
qed

text \<open>The position drawn is the floor of the exact product, up to the rounding error.\<close>

lemma round_double_nonneg: "0 \<le> x \<Longrightarrow> 0 \<le> round_double x"
proof -
  assume "0 \<le> x"
  then have "0 \<le> x / ulp x"
    using ulp_pos [of x] by simp
  then have "0 \<le> \<lfloor>x / ulp x\<rfloor>"
    by simp
  then have "0 \<le> round_even (x / ulp x)"
    unfolding round_even_def by simp
  then show ?thesis
    unfolding round_double_def using ulp_pos [of x] by simp
qed

lemma random_index_near:
  assumes "0 \<le> r"
  shows "of_nat (random_index r i) \<le> r * (of_nat i + 1) * (1 + 1 / 2 ^ 53) + 1 / 2 ^ 1075
       \<and> r * (of_nat i + 1) * (1 - 1 / 2 ^ 53) - 1 / 2 ^ 1075 < of_nat (random_index r i) + 1"
proof (cases "r * (of_nat i + 1) = 0")
  case True
  then have "random_index r i = 0"
    by (simp only: random_index_def round_double_0) simp
  then show ?thesis
    unfolding True by simp
next
  case False
  let ?x = "r * (of_nat i + 1)"
  let ?d = "round_double ?x"
  have x: "0 \<le> ?x" using assms by simp
  then have "0 < ?x" using False by (metis order_le_less)
  then have "ulp ?x \<le> max (?x / 2 ^ 52) (1 / 2 ^ 1074)" by (rule ulp_le)
  also have "\<dots> \<le> ?x / 2 ^ 52 + 1 / 2 ^ 1074"
    using x by (simp add: max_def)
  finally have half: "ulp ?x / 2 \<le> ?x / 2 ^ 53 + 1 / 2 ^ 1075" by simp
  have d: "0 \<le> ?d" using x by (rule round_double_nonneg)
  then have "0 \<le> \<lfloor>?d\<rfloor>" by simp
  then have j: "(of_nat (random_index r i) :: rat) = of_int \<lfloor>?d\<rfloor>"
    unfolding random_index_def by simp
  have "of_int \<lfloor>?d\<rfloor> \<le> ?d" by simp
  also have "?d \<le> ?x + ulp ?x / 2" by (rule round_double_le)
  also have "\<dots> \<le> ?x + (?x / 2 ^ 53 + 1 / 2 ^ 1075)" using half by simp
  finally have up: "of_int \<lfloor>?d\<rfloor> \<le> ?x * (1 + 1 / 2 ^ 53) + 1 / 2 ^ 1075"
    by (simp add: field_simps)
  have "?x - (?x / 2 ^ 53 + 1 / 2 ^ 1075) \<le> ?x - ulp ?x / 2" using half by simp
  also have "\<dots> \<le> ?d" by (rule round_double_ge)
  also have "?d < of_int \<lfloor>?d\<rfloor> + 1" by linarith
  finally have low: "?x * (1 - 1 / 2 ^ 53) - 1 / 2 ^ 1075 < of_int \<lfloor>?d\<rfloor> + 1"
    by (simp add: field_simps)
  show ?thesis
    unfolding j using up low by (rule conjI)
qed

lemma random_index_0: "random_index 0 i = 0"
  by (simp add: random_index_def round_double_0)

lemma random_index_half: "random_index (1 / 2) 2 = 1"
proof -
  have "(1 / 2 :: rat) * (of_nat 2 + 1) = 3 / 2" by simp
  then show ?thesis
    unfolding random_index_def by (simp only: round_double_three_halves floor_three_halves)
qed

lemma random_index_third: "random_index third 2 = 1"
  unfolding random_index_def third_product round_double_third_product by simp

lemma exact_third: "nat \<lfloor>third * (of_nat 2 + 1)\<rfloor> = 0"
  by (simp add: third_def floor_rat_numeral)

lemma random_index_quarter_up: "random_index quarter_up 30 = 8"
  unfolding random_index_def quarter_up_product round_double_quarter_up_product by simp

lemma exact_quarter_up: "nat \<lfloor>quarter_up * (of_nat 30 + 1)\<rfloor> = 7"
  by (simp add: quarter_up_def floor_rat_numeral)

lemma half_then_zero_unit: "unit_interval half_then_zero"
  by (simp add: unit_interval_def half_then_zero_def is_double_half is_double_0)


lemma length_shuffle_from: "length (shuffle_from rnd k i a) = length a"
  by (induction i arbitrary: k a) (simp_all add: length_swap)

lemma length_shuffle: "length (shuffle rnd a) = length a"
  by (simp add: shuffle_def length_shuffle_from)

lemma mset_shuffle_from:
  "unit_interval rnd \<Longrightarrow> i < length a \<Longrightarrow> mset (shuffle_from rnd k i a) = mset a"
proof (induction i arbitrary: k a)
  case 0
  then show ?case by simp
next
  case (Suc i)
  have "random_index (rnd k) (Suc i) \<le> Suc i"
    using Suc.prems(1) by (simp add: unit_interval_def random_index_le)
  then have j: "random_index (rnd k) (Suc i) < length a"
    using Suc.prems(2) by simp
  have "mset (swap (Suc i) (random_index (rnd k) (Suc i)) a) = mset a"
    using Suc.prems(2) j by (rule mset_swap_eq)
  moreover have "i < length (swap (Suc i) (random_index (rnd k) (Suc i)) a)"
    using Suc.prems(2) by (simp add: length_swap)
  ultimately show ?case
    using Suc.IH [OF Suc.prems(1)] by simp
qed

lemma mset_shuffle: "unit_interval rnd \<Longrightarrow> mset (shuffle rnd a) = mset a"
proof (cases a)
  case Nil
  then show ?thesis by (simp add: shuffle_def)
next
  case (Cons x xs)
  assume "unit_interval rnd"
  then show ?thesis
    unfolding shuffle_def using Cons by (intro mset_shuffle_from) simp_all
qed

lemma distinct_indices: "distinct (indices xs)"
  by (simp add: indices_def distinct_map inj_on_def)

lemma length_indices: "length (indices xs) = length xs"
  by (simp add: indices_def)

lemma distinct_shuffle: "unit_interval rnd \<Longrightarrow> distinct a \<Longrightarrow> distinct (shuffle rnd a)"
  by (metis mset_shuffle mset_eq_imp_distinct_iff)

text \<open>The loop of the source makes the steps that the specification lists.\<close>

lemma shuffle_from_foldl:
  "shuffle_from rnd k i a =
     foldl (\<lambda>b (i, j). swap i j b) a
       (map (\<lambda>m. (i - m, random_index (rnd (k + m)) (i - m))) [0..<i])"
proof (induction i arbitrary: k a)
  case 0
  show ?case by simp
next
  case (Suc i)
  have split: "[0..<Suc i] = 0 # map Suc [0..<i]"
    by (simp only: map_Suc_upt upt_conv_Cons zero_less_Suc)
  show ?case
    unfolding split by (simp add: Suc.IH comp_def)
qed

lemma shuffle_fisher_yates: "shuffle rnd a = fisher_yates rnd a"
  by (simp add: shuffle_def fisher_yates_def draws_def shuffle_from_foldl)

lemma draws_fst: "map fst (draws rnd n) = rev [1..<n]"
  by (auto simp: list_eq_iff_nth_eq draws_def rev_nth)

lemma draws_le: "unit_interval rnd \<Longrightarrow> list_all (\<lambda>(i, j). j \<le> i) (draws rnd n)"
  by (simp add: draws_def list_all_iff unit_interval_def random_index_le)

lemma draws_half_then_zero: "draws half_then_zero 3 = [(2, 1), (1, 0)]"
  by (simp add: draws_def half_then_zero_def random_index_half random_index_0 upt_rec)

subsection \<open>The fields that the operations set\<close>

lemma str_keys [simp]:
  "str ''order'' \<noteq> str ''index''" "str ''order'' \<noteq> str ''rows''" "str ''index'' \<noteq> str ''rows''"
  "str ''index'' \<noteq> str ''order''" "str ''rows'' \<noteq> str ''order''" "str ''rows'' \<noteq> str ''index''"
  by (simp_all add: str_def)

lemma initial_fields [simp]:
  "storage (initial store) = store" "rows (initial store) = []" "order (initial store) = []"
  "index (initial store) = Num 0" "loading (initial store)" "\<not> revealed (initial store)"
  "\<not> restoredRef (initial store)" "\<not> deps_changed (initial store)"
  "warnings (initial store) = 0" "csv_requests (initial store) = 0"
  "\<not> crashed (initial store)"
  by (simp_all add: initial_def)

lemma persist_effect_fields [simp]:
  "rows (persist_effect a b c w) = rows w" "order (persist_effect a b c w) = order w"
  "index (persist_effect a b c w) = index w" "restoredRef (persist_effect a b c w) = restoredRef w"
  "deps_changed (persist_effect a b c w) = deps_changed w"
  "crashed (persist_effect a b c w) = crashed w"
  "storage (persist_effect a b c w) STORAGE_KEY = Some (JSON_stringify (snapshot a b c))"
  by (simp_all add: persist_effect_def localStorage_setItem_def)

lemma persist_effect_twice: "persist_effect a b c (persist_effect a b c w) = persist_effect a b c w"
  by (simp add: persist_effect_def localStorage_setItem_def)

lemma current_cells:
  "rows v = rows w \<Longrightarrow> order v = order w \<Longrightarrow> index v = index w \<Longrightarrow> current v = current w"
  by (simp add: current_def split: option.splits)

lemma first_render: "current (initial store) = Inr Undefined"
  by (simp add: current_def)

lemma commit_fields [simp]:
  "rows (commit w) = rows w" "order (commit w) = order w" "index (commit w) = index w"
  "revealed (commit w) = revealed w" "loading (commit w) = loading w"
  "restoredRef (commit w) = restoredRef w" "csv_requests (commit w) = csv_requests w"
  "warnings (commit w) = warnings w"
  by (simp_all add: commit_def persist_effect_def localStorage_setItem_def split: sum.splits)

lemma commit_crashed: "crashed (commit w) \<longleftrightarrow> crashed w \<or> isl (current w)"
  by (simp add: commit_def split: sum.splits)

lemma commit_throws: "\<not> crashed w \<Longrightarrow> current w = Inl e \<Longrightarrow> commit w = w\<lparr>crashed := True\<rparr>"
  by (simp add: commit_def)

lemma commit_completes:
  "\<not> crashed w \<Longrightarrow> current w = Inr v \<Longrightarrow>
     commit w = (if deps_changed w
                 then (persist_effect (order w) (index w) (rows w) w)\<lparr>deps_changed := False\<rparr>
                 else w)"
  by (simp add: commit_def)


lemma commit_dirty:
  "\<not> crashed (commit w) \<Longrightarrow> deps_changed w \<Longrightarrow>
     storage_matches (commit w) \<and> \<not> deps_changed (commit w)"
  by (simp add: commit_def storage_matches_def split: sum.splits if_splits)

lemma handle_crashed [simp]: "crashed (handle e w) = crashed w"
  by (cases e)
     (simp_all add: complete_csv_def startNew_def next_card_def reveal_def Let_def
        localStorage_setItem_def setLoading_def setIndex_def setOrder_def setRows_def
        setVideoLoading_def setRevealed_def)

lemma step_fields [simp]:
  "rows (step e w) = rows (handle e w)" "order (step e w) = order (handle e w)"
  "index (step e w) = index (handle e w)" "revealed (step e w) = revealed (handle e w)"
  "loading (step e w) = loading (handle e w)"
  by (simp_all add: step_def Let_def)


lemma complete_fields:
  "rows (complete_csv rnd data w) = map track_object (mapped data)"
  "order (complete_csv rnd data w) = shuffle rnd (indices (map track_object (mapped data)))"
  "index (complete_csv rnd data w) = Num 0"
  by (simp_all add: complete_csv_def Let_def localStorage_setItem_def setLoading_def setIndex_def
      setOrder_def setRows_def)

lemma startNew_fields:
  "rows w \<noteq> [] \<Longrightarrow> order (startNew rnd w) = shuffle rnd (indices (rows w))"
  "rows w \<noteq> [] \<Longrightarrow> index (startNew rnd w) = Num 0"
  "rows w = [] \<Longrightarrow> startNew rnd w = w"
  by (simp_all add: startNew_def Let_def localStorage_setItem_def setVideoLoading_def
      setRevealed_def setIndex_def setOrder_def)

lemma next_card_fields:
  "order (next_card w) = order w" "rows (next_card w) = rows w" "storage (next_card w) = storage w"
  by (simp_all add: next_card_def setIndex_def setVideoLoading_def setRevealed_def)

lemma next_card_index:
  "order w \<noteq> [] \<Longrightarrow>
     index (next_card w) = Math_min (plus_one (index w)) (minus_one (array_length (order w)))"
  by (cases "order w")
     (simp_all add: next_card_def setIndex_def setVideoLoading_def setRevealed_def
        Math_max_def array_length_def)

lemma next_card_revealed: "order w \<noteq> [] \<Longrightarrow> \<not> revealed (next_card w)"
  by (simp add: next_card_def setIndex_def setVideoLoading_def setRevealed_def)

lemma next_card_empty: "order w = [] \<Longrightarrow> next_card w = w"
  by (simp add: next_card_def)

subsection \<open>The restore effect and startup\<close>

lemma valid_snapshot_snapshot:
  "valid_snapshot (Some (JsonText (snapshot ord i r))) = (if r \<noteq> [] \<and> ord \<noteq> [] then Some (r, ord, i) else None)"
  by (simp add: valid_snapshot_def snapshot_def)

lemma valid_snapshot_Some:
  assumes "valid_snapshot item = Some (r, ord, i)"
  obtains kvs where "item = Some (JsonText (JObj kvs))"
    "map_of kvs (str ''rows'') = Some (JArr r)" "map_of kvs (str ''order'') = Some (JArr ord)"
    "map_of kvs (str ''index'') = Some (JNum i)" "r \<noteq> []" "ord \<noteq> []"
  using assms unfolding valid_snapshot_def
  by (auto split: option.splits stored.splits json.splits if_splits)

lemma restore_try_valid:
  assumes "valid_snapshot (Some saved) = Some (r, ord, i)"
  shows "restore_try saved w =
    Inr (Some (localStorage_setItem STORAGE_KEY (JSON_stringify (snapshot ord i r))
      (setLoading False (setRows r (setIndex i (setOrder ord w))))))"
proof -
  from assms obtain kvs where kvs: "saved = JsonText (JObj kvs)"
    "map_of kvs (str ''rows'') = Some (JArr r)" "map_of kvs (str ''order'') = Some (JArr ord)"
    "map_of kvs (str ''index'') = Some (JNum i)" "r \<noteq> []" "ord \<noteq> []"
    by (rule valid_snapshot_Some) auto
  show ?thesis
    unfolding restore_try_def kvs(1) JSON_parse_def
    using kvs(2-) by simp
qed

lemma restore_try_cases:
  "restore_try saved w =
     (case saved of
        JsonText v \<Rightarrow>
          (case valid_snapshot (Some saved) of
             Some (r, ord, i) \<Rightarrow>
               Inr (Some (localStorage_setItem STORAGE_KEY (JSON_stringify (snapshot ord i r))
                 (setLoading False (setRows r (setIndex i (setOrder ord w))))))
           | None \<Rightarrow> Inr None)
      | _ \<Rightarrow> Inl SyntaxError)"
proof (cases saved)
  case EmptyText
  then show ?thesis by (simp add: restore_try_def JSON_parse_def)
next
  case Malformed
  then show ?thesis by (simp add: restore_try_def JSON_parse_def)
next
  case (JsonText v)
  show ?thesis
  proof (cases "valid_snapshot (Some saved)")
    case None
    have "restore_try saved w = Inr None"
    proof (cases v)
      case (JObj kvs)
      show ?thesis
        using None unfolding JsonText JObj restore_try_def JSON_parse_def valid_snapshot_def
        by (cases "map_of kvs (str ''rows'')"; cases "map_of kvs (str ''order'')";
            cases "map_of kvs (str ''index'')")
           (auto split: json.splits if_splits)
    qed (simp_all add: JsonText restore_try_def JSON_parse_def)
    then show ?thesis using None JsonText by simp
  next
    case (Some t)
    obtain r ord i where t: "t = (r, ord, i)" by (cases t)
    show ?thesis using Some restore_try_valid [of saved r ord i w] JsonText t by simp
  qed
qed

lemma restore_effect_valid:
  assumes "\<not> restoredRef w" "valid_snapshot (storage w STORAGE_KEY) = Some (r, ord, i)"
  shows "restore_effect w = adopted r ord i w"
proof -
  from assms(2) obtain kvs where item: "storage w STORAGE_KEY = Some (JsonText (JObj kvs))"
    by (rule valid_snapshot_Some)
  have "restore_try (JsonText (JObj kvs)) (w\<lparr>restoredRef := True\<rparr>) =
      Inr (Some (localStorage_setItem STORAGE_KEY (JSON_stringify (snapshot ord i r))
        (setLoading False (setRows r (setIndex i (setOrder ord (w\<lparr>restoredRef := True\<rparr>)))))))"
    using assms(2) unfolding item by (rule restore_try_valid)
  then show ?thesis
    using assms(1) item
    by (simp add: restore_effect_def localStorage_getItem_def adopted_def localStorage_setItem_def
        setLoading_def setRows_def setIndex_def setOrder_def)
qed

lemma restore_effect_invalid:
  assumes "\<not> restoredRef w" "valid_snapshot (storage w STORAGE_KEY) = None"
  shows "restore_effect w = fell_through w"
proof (cases "storage w STORAGE_KEY")
  case None
  then show ?thesis
    using assms(1)
    by (simp add: restore_effect_def localStorage_getItem_def fell_through_def Papa_parse_def
        parse_fails_def)
next
  case (Some saved)
  show ?thesis
  proof (cases saved)
    case EmptyText
    then show ?thesis
      using assms(1) Some
      by (simp add: restore_effect_def localStorage_getItem_def fell_through_def Papa_parse_def
          parse_fails_def)
  next
    case Malformed
    then show ?thesis
      using assms(1) Some
      by (simp add: restore_effect_def localStorage_getItem_def fell_through_def Papa_parse_def
          parse_fails_def restore_try_cases console_warn_def)
  next
    case (JsonText v)
    then show ?thesis
      using assms Some
      by (simp add: restore_effect_def localStorage_getItem_def fell_through_def Papa_parse_def
          parse_fails_def restore_try_cases)
  qed
qed

lemma restore_effect_guarded: "restoredRef w \<Longrightarrow> restore_effect w = w"
  by (simp add: restore_effect_def)

lemma restoredRef_restore_effect: "restoredRef (restore_effect w)"
proof (cases "restoredRef w")
  case True
  then show ?thesis by (simp add: restore_effect_guarded)
next
  case False
  then show ?thesis
    by (cases "valid_snapshot (storage w STORAGE_KEY)")
       (auto simp: restore_effect_valid restore_effect_invalid adopted_def fell_through_def)
qed

lemma startup_effects:
  assumes "valid_snapshot (store STORAGE_KEY) = Some (r, ord, i)"
  shows "startup strict store =
     commit (persist_effect [] (Num 0) [] (adopted r ord i (initial store)))"
proof -
  have fresh: "\<not> restoredRef (initial store)" by simp
  have valid: "valid_snapshot (storage (initial store) STORAGE_KEY) = Some (r, ord, i)"
    using assms by simp
  have once: "mount_effects [] (Num 0) [] (initial store) =
      persist_effect [] (Num 0) [] (adopted r ord i (initial store))"
    unfolding mount_effects_def restore_effect_valid [OF fresh valid] ..
  have twice: "mount_effects [] (Num 0) [] (persist_effect [] (Num 0) [] (adopted r ord i (initial store)))
      = persist_effect [] (Num 0) [] (adopted r ord i (initial store))"
    by (simp add: mount_effects_def restore_effect_guarded adopted_def persist_effect_twice)
  show ?thesis
    by (simp add: startup_def Let_def once twice)
qed

lemma adopted_fields [simp]:
  "rows (adopted r ord i w) = r" "order (adopted r ord i w) = ord" "index (adopted r ord i w) = i"
  "crashed (adopted r ord i w) = crashed w" "deps_changed (adopted r ord i w)"
  by (simp_all add: adopted_def)


lemma startup_fields:
  assumes "valid_snapshot (store STORAGE_KEY) = Some (r, ord, i)"
  shows "rows (startup strict store) = r" "order (startup strict store) = ord"
    "index (startup strict store) = i"
    "current (startup strict store) = current (adopted r ord i (initial store))"
    "crashed (startup strict store) = isl (current (adopted r ord i (initial store)))"
proof -
  let ?w = "persist_effect [] (Num 0) [] (adopted r ord i (initial store))"
  note start = startup_effects [of store r ord i, OF assms]
  have same: "current ?w = current (adopted r ord i (initial store))"
    by (rule current_cells) simp_all
  show "rows (startup strict store) = r" "order (startup strict store) = ord"
    "index (startup strict store) = i"
    unfolding start by simp_all
  show "current (startup strict store) = current (adopted r ord i (initial store))"
    unfolding start by (rule current_cells) simp_all
  show "crashed (startup strict store) = isl (current (adopted r ord i (initial store)))"
    unfolding start by (simp add: commit_crashed same)
qed


lemma startup_throws:
  assumes "valid_snapshot (store STORAGE_KEY) = Some (r, ord, i)"
    "current (adopted r ord i (initial store)) = Inl e"
  shows "startup strict store =
     (persist_effect [] (Num 0) [] (adopted r ord i (initial store)))\<lparr>crashed := True\<rparr>"
proof -
  let ?w = "persist_effect [] (Num 0) [] (adopted r ord i (initial store))"
  have "current ?w = current (adopted r ord i (initial store))"
    by (rule current_cells) simp_all
  then have "current ?w = Inl e"
    using assms(2) by simp
  then show ?thesis
    unfolding startup_effects [of store r ord i, OF assms(1)] by (simp add: commit_throws)
qed

lemma startup_invalid:
  assumes "valid_snapshot (store STORAGE_KEY) = None"
  shows "startup strict store =
     persist_effect [] (Num 0) [] (fell_through (initial store))"
proof -
  have fresh: "\<not> restoredRef (initial store)" by simp
  have invalid: "valid_snapshot (storage (initial store) STORAGE_KEY) = None"
    using assms by simp
  have once: "mount_effects [] (Num 0) [] (initial store) =
      persist_effect [] (Num 0) [] (fell_through (initial store))"
    unfolding mount_effects_def restore_effect_invalid [OF fresh invalid] ..
  have twice: "mount_effects [] (Num 0) [] (persist_effect [] (Num 0) [] (fell_through (initial store)))
      = persist_effect [] (Num 0) [] (fell_through (initial store))"
    by (simp add: mount_effects_def restore_effect_guarded fell_through_def persist_effect_twice)
  have "current (persist_effect [] (Num 0) [] (fell_through (initial store))) = Inr Undefined"
    by (simp add: current_def fell_through_def)
  then have "commit (persist_effect [] (Num 0) [] (fell_through (initial store)))
      = persist_effect [] (Num 0) [] (fell_through (initial store))"
    by (simp add: commit_completes fell_through_def)
  then show ?thesis
    by (simp add: startup_def Let_def once twice)
qed


lemma saved_session_valid:
  "valid_snapshot (saved_session STORAGE_KEY) =
     Some ([JStr (str ''a''), JStr (str ''b'')], [JNum (Num 1), JNum (Num 0)], Num 1)"
  by (simp add: saved_session_def valid_snapshot_snapshot)

lemma overflowed_session_valid:
  "valid_snapshot (overflowed_session STORAGE_KEY) = Some ([JStr (str ''a'')], [JNum (Num 0)], PosInf)"
  by (simp add: overflowed_session_def valid_snapshot_snapshot)

lemma stale_session_valid:
  "valid_snapshot (stale_session STORAGE_KEY) = Some ([JStr (str ''a'')], [JNum (Num 0)], Num 5)"
  by (simp add: stale_session_def valid_snapshot_snapshot)

lemma fractional_session_valid:
  "valid_snapshot (fractional_session STORAGE_KEY)
     = Some ([JStr (str ''a'')], [JNum (Num 7), JNum (Num 0)], Num (3 / 2))"
  by (simp add: fractional_session_def valid_snapshot_snapshot)

lemma poisoned_session_valid:
  "valid_snapshot (poisoned_session STORAGE_KEY)
     = Some ([JStr (str ''a'')], [JObj [(str ''toString'', JNum (Num 1))]], Num 0)"
  by (simp add: poisoned_session_def valid_snapshot_snapshot)


subsection \<open>The cursor\<close>

lemma cursor_in_range_commit [simp]: "cursor_in_range (commit w) = cursor_in_range w"
  unfolding cursor_in_range_def commit_fields ..

lemma cursor_in_range_step: "cursor_in_range (step e w) = cursor_in_range (handle e w)"
  unfolding cursor_in_range_def step_fields ..

lemma cursor_in_rangeE:
  assumes "cursor_in_range w" "order w \<noteq> []"
  obtains n where "index w = Num (of_nat n)" "n < length (order w)"
proof -
  from assms obtain q where q: "index w = Num q" "of_int \<lfloor>q\<rfloor> = q" "0 \<le> q"
      "q < of_nat (length (order w))"
    by (cases "index w") (auto simp: cursor_in_range_def position_of_def)
  have "0 \<le> \<lfloor>q\<rfloor>" using q(3) by simp
  then obtain n where n: "\<lfloor>q\<rfloor> = int n" using nonneg_int_cases by blast
  then have qn: "q = of_nat n" using q(2) by (metis of_int_of_nat_eq)
  then have "n < length (order w)" using q(4) by simp
  then show ?thesis using that q(1) qn by blast
qed

lemma cursor_in_rangeI:
  "index w = Num (of_nat n) \<Longrightarrow> n < length (order w) \<Longrightarrow> cursor_in_range w"
  by (simp add: cursor_in_range_def position_of_def)

lemma first_in_range: "index w = Num 0 \<Longrightarrow> cursor_in_range w"
  by (simp add: cursor_in_range_def position_of_def)

lemma next_card_at:
  assumes "index w = Num (of_nat n)" "n < length (order w)"
  shows "index (next_card w) = Num (of_nat (min (Suc n) (length (order w) - 1)))"
proof -
  have ne: "order w \<noteq> []" using assms(2) by auto
  have "1 \<le> length (order w)" using assms(2) by simp
  then have len: "(of_nat (length (order w)) :: rat) - 1 = of_nat (length (order w) - 1)"
    by (metis of_nat_1 of_nat_diff)
  have suc: "(of_nat n :: rat) + 1 = of_nat (Suc n)" by simp
  have "index (next_card w) = Math_min (Num (of_nat (Suc n))) (Num (of_nat (length (order w) - 1)))"
    unfolding next_card_index [OF ne] assms(1) array_length_def plus_one.simps minus_one.simps len suc ..
  also have "\<dots> = Num (of_nat (min (Suc n) (length (order w) - 1)))"
    by (simp add: Math_min_def min_def del: of_nat_Suc)
  finally show ?thesis .
qed

lemma next_card_in_range: "cursor_in_range w \<Longrightarrow> cursor_in_range (next_card w)"
proof (cases "order w = []")
  case True
  assume "cursor_in_range w"
  then show ?thesis using True by (simp add: next_card_empty)
next
  case False
  assume "cursor_in_range w"
  then obtain n where n: "index w = Num (of_nat n)" "n < length (order w)"
    using False by (rule cursor_in_rangeE)
  show ?thesis
  proof (rule cursor_in_rangeI [where n = "min (Suc n) (length (order w) - 1)"])
    show "index (next_card w) = Num (rat_of_nat (min (Suc n) (length (order w) - 1)))"
      using n by (rule next_card_at)
    show "min (Suc n) (length (order w) - 1) < length (order (next_card w))"
      unfolding next_card_fields using n(2) by linarith
  qed
qed

lemma next_card_mono: "cursor_in_range w \<Longrightarrow> num_le (index w) (index (next_card w))"
proof (cases "order w = []")
  case True
  assume "cursor_in_range w"
  then show ?thesis using True by (cases "index w") (simp_all add: next_card_empty)
next
  case False
  assume "cursor_in_range w"
  then obtain n where n: "index w = Num (of_nat n)" "n < length (order w)"
    using False by (rule cursor_in_rangeE)
  have "n \<le> min (Suc n) (length (order w) - 1)" using n(2) by simp
  then show ?thesis unfolding next_card_at [OF n] n(1) by (simp del: of_nat_Suc)
qed

lemma next_card_bounded:
  "cursor_in_range w \<Longrightarrow> order w \<noteq> [] \<Longrightarrow>
     num_le (index w) (minus_one (array_length (order w)))"
proof -
  assume "cursor_in_range w" "order w \<noteq> []"
  then obtain n where n: "index w = Num (of_nat n)" "n < length (order w)"
    by (rule cursor_in_rangeE)
  have "Suc n \<le> length (order w)" using n(2) by simp
  then have "(of_nat (Suc n) :: rat) \<le> of_nat (length (order w))"
    by (simp only: of_nat_le_iff)
  then have "(of_nat n :: rat) + 1 \<le> of_nat (length (order w))"
    by (simp only: of_nat_Suc add.commute)
  then have "(of_nat n :: rat) \<le> of_nat (length (order w)) - 1" by linarith
  then show ?thesis unfolding n(1) array_length_def minus_one.simps num_le.simps .
qed

lemma next_card_last:
  "order w \<noteq> [] \<Longrightarrow> index w = minus_one (array_length (order w)) \<Longrightarrow> index (next_card w) = index w"
proof -
  assume ne: "order w \<noteq> []" and last: "index w = minus_one (array_length (order w))"
  have "\<not> num_le (plus_one (index w)) (minus_one (array_length (order w)))"
    unfolding last array_length_def by simp
  then show ?thesis
    unfolding next_card_index [OF ne] Math_min_def using last by simp
qed

lemma step_Next_fields:
  "index (step Next w) = index (next_card w)" "order (step Next w) = order w"
  "cursor_in_range (step Next w) = cursor_in_range (next_card w)"
  by (simp_all add: cursor_in_range_step next_card_fields)

lemma steps_Next_invariant:
  "cursor_in_range w \<Longrightarrow>
     cursor_in_range ((step Next ^^ n) w) \<and> order ((step Next ^^ n) w) = order w"
  by (induction n) (simp_all add: cursor_in_range_step next_card_in_range next_card_fields)

lemma steps_Next_index:
  assumes "index w = Num (of_nat n)" "n < length (order w)"
  shows "index ((step Next ^^ m) w) = Num (of_nat (min (n + m) (length (order w) - 1)))"
proof (induction m)
  case 0
  show ?case using assms by (simp add: min_def)
next
  case (Suc m)
  let ?v = "(step Next ^^ m) w"
  have inv: "cursor_in_range w"
    using assms by (rule cursor_in_rangeI)
  have ord: "order ?v = order w"
    using steps_Next_invariant [OF inv, of m] by simp
  have lt: "min (n + m) (length (order w) - 1) < length (order ?v)"
    unfolding ord using assms(2) by linarith
  have "index (step Next ?v)
      = Num (of_nat (min (Suc (min (n + m) (length (order w) - 1))) (length (order ?v) - 1)))"
    unfolding step_Next_fields using Suc.IH lt by (rule next_card_at)
  moreover have "min (Suc (min (n + m) (length (order w) - 1))) (length (order w) - 1)
      = min (n + Suc m) (length (order w) - 1)"
    by simp
  ultimately show ?case
    unfolding ord by (simp del: of_nat_Suc of_nat_add)
qed

lemma three_cards_run:
  "index (step Next three_cards) = Num 1"
  "index ((step Next ^^ 2) three_cards) = Num 2"
  "index ((step Next ^^ 3) three_cards) = Num 2"
proof -
  have at: "index three_cards = Num (of_nat 0)" "0 < length (order three_cards)"
    by (simp_all add: three_cards_def)
  have len: "length (order three_cards) = 3"
    by (simp add: three_cards_def)
  show "index (step Next three_cards) = Num 1"
    using steps_Next_index [OF at, of 1] by (simp add: len)
  show "index ((step Next ^^ 2) three_cards) = Num 2"
    using steps_Next_index [OF at, of 2] by (simp add: len)
  show "index ((step Next ^^ 3) three_cards) = Num 2"
    using steps_Next_index [OF at, of 3] by (simp add: len)
qed

lemma handle_in_range: "cursor_in_range w \<Longrightarrow> cursor_in_range (handle e w)"
proof (cases e)
  case (Complete rnd data)
  then show ?thesis by (simp add: first_in_range complete_fields)
next
  case (StartNew rnd)
  assume "cursor_in_range w"
  then show ?thesis
    using StartNew by (cases "rows w = []") (simp_all add: first_in_range startNew_fields)
next
  case Reveal
  assume "cursor_in_range w"
  then show ?thesis using Reveal by (simp add: reveal_def setRevealed_def cursor_in_range_def)
next
  case Next
  assume "cursor_in_range w"
  then show ?thesis using Next by (simp add: next_card_in_range)
qed

lemma step_in_range: "cursor_in_range w \<Longrightarrow> cursor_in_range (step e w)"
  unfolding cursor_in_range_step by (rule handle_in_range)

lemma startup_in_range: "stored_cursor_in_range store \<Longrightarrow> cursor_in_range (startup strict store)"
proof (cases "valid_snapshot (store STORAGE_KEY)")
  case None
  show ?thesis
    unfolding startup_invalid [of store, OF None]
    by (simp add: cursor_in_range_def fell_through_def)
next
  case (Some t)
  obtain r ord i where t: "t = (r, ord, i)" by (cases t)
  assume "stored_cursor_in_range store"
  then show ?thesis
    using Some t
    by (simp add: cursor_in_range_def stored_cursor_in_range_def
        startup_fields [of store r ord i, OF Some [unfolded t]])
qed

lemma saved_session_in_range: "stored_cursor_in_range saved_session"
  by (simp add: stored_cursor_in_range_def saved_session_valid position_of_def)

lemma startup_adopted_in_range:
  assumes "valid_snapshot (store STORAGE_KEY) = Some (r, ord, i)"
  shows "cursor_in_range (startup strict store) = position_of ord i"
proof -
  have "ord \<noteq> []" using assms by (auto elim: valid_snapshot_Some)
  then show ?thesis
    by (simp add: cursor_in_range_def startup_fields [of store r ord i, OF assms])
qed

subsection \<open>Storage follows the state\<close>

lemma startup_invariant:
  assumes "\<not> crashed (startup strict store)"
  shows "storage_matches (startup strict store) \<and> \<not> deps_changed (startup strict store)"
proof (cases "valid_snapshot (store STORAGE_KEY)")
  case None
  show ?thesis
    unfolding startup_invalid [of store, OF None]
    by (simp add: storage_matches_def fell_through_def)
next
  case (Some t)
  obtain r ord i where t: "t = (r, ord, i)" by (cases t)
  show ?thesis
    using assms unfolding startup_effects [of store r ord i, OF Some [unfolded t]]
    by (intro commit_dirty) simp_all
qed

lemma startup_crashed_storage:
  assumes "crashed (startup strict store)"
  shows "storage (startup strict store) STORAGE_KEY = Some (JSON_stringify (snapshot [] (Num 0) []))"
proof (cases "valid_snapshot (store STORAGE_KEY)")
  case None
  show ?thesis
    unfolding startup_invalid [of store, OF None] by simp
next
  case (Some t)
  obtain r ord i where t: "t = (r, ord, i)" by (cases t)
  note valid = Some [unfolded t]
  from assms obtain e where "current (adopted r ord i (initial store)) = Inl e"
    unfolding startup_fields [of store r ord i, OF valid]
    by (cases "current (adopted r ord i (initial store))") simp_all
  then show ?thesis
    by (simp add: startup_throws [of store r ord i, OF valid])
qed





subsection \<open>The JSON codec\<close>

lemma reparse_finite: "finite_json v \<Longrightarrow> reparse v = v"
proof (induction v)
  case (JNum n)
  then show ?case by (cases n) simp_all
next
  case (JArr xs)
  then show ?case by (simp add: list_all_iff map_idI)
next
  case (JObj kvs)
  have "map_prod id reparse kv = kv" if "kv \<in> set kvs" for kv
  proof -
    obtain k v where kv: "kv = (k, v)" by (cases kv)
    have "finite_json v" using JObj.prems that kv by (auto simp: list_all_iff)
    moreover have "v \<in> Basic_BNFs.snds kv" using kv by simp
    ultimately show ?thesis using JObj.IH that kv by simp
  qed
  then show ?case by (simp add: map_idI)
qed simp_all

lemma reparse_snapshot:
  "list_all finite_json r \<Longrightarrow> list_all finite_json ord \<Longrightarrow> finite_json (JNum i) \<Longrightarrow>
     reparse (snapshot ord i r) = snapshot ord i r"
  by (rule reparse_finite) (simp add: snapshot_def)

subsection \<open>The catalog\<close>








subsection \<open>The current track\<close>

lemma element_at_None: "element_at xs i = None \<longleftrightarrow> \<not> position_of xs i"
  by (cases i) (auto simp: position_of_def nat_less_iff floor_less_iff)

lemma property_at_throws: "property_at xs k = Inl e \<longleftrightarrow> e = TypeError \<and> to_string_throws k"
  by (induction xs k rule: property_at.induct) (auto split: option.splits)

lemma property_at_total: "\<not> to_string_throws k \<Longrightarrow> \<exists>v. property_at xs k = Inr v"
  by (metis property_at_throws sum.exhaust)

lemma current_absent_index: "\<not> position_of (order w) (index w) \<Longrightarrow> current w = Inr Undefined"
  by (simp add: current_def element_at_None [symmetric])

lemma current_absent_entry:
  "element_at (order w) (index w) = Some (JNum n) \<Longrightarrow> \<not> position_of (rows w) n
     \<Longrightarrow> current w = Inr Undefined"
  by (simp add: current_def element_at_None [symmetric])

lemma current_throws:
  "element_at (order w) (index w) = Some k \<Longrightarrow>
     (current w = Inl TypeError) = to_string_throws k"
  by (simp add: current_def property_at_throws)

lemma three_rows_order:
  "order (startNew half_then_zero three_rows) = [JNum (Num 2), JNum (Num 0), JNum (Num 1)]"
proof -
  have len: "length [JNum (Num 0), JNum (Num 1), JNum (Num 2)] = 3"
    by simp
  have "rows three_rows \<noteq> []"
    by (simp add: three_rows_def)
  then have "order (startNew half_then_zero three_rows)
      = fisher_yates half_then_zero (indices (rows three_rows))"
    by (simp add: startNew_fields shuffle_fisher_yates)
  also have "indices (rows three_rows) = [JNum (Num 0), JNum (Num 1), JNum (Num 2)]"
    by (simp add: three_rows_def indices_def upt_rec)
  also have "fisher_yates half_then_zero [JNum (Num 0), JNum (Num 1), JNum (Num 2)]
      = foldl (\<lambda>b (i, j). swap i j b) [JNum (Num 0), JNum (Num 1), JNum (Num 2)] [(2, 1), (1, 0)]"
    by (simp only: fisher_yates_def len draws_half_then_zero)
  also have "\<dots> = [JNum (Num 2), JNum (Num 0), JNum (Num 1)]"
    by (simp add: swap_def numeral_2_eq_2)
  finally show ?thesis .
qed

text \<open>
  Entries of \<open>order\<close> that are texts or arrays: a numeral names a position, \<^verbatim>\<open>length\<close>
  the length, any other text is left to the prototype chain; an array stands for the join
  of its elements.
\<close>

lemma property_at_text_keys:
  "property_at [JStr (str ''a''), JStr (str ''b'')] (JStr (str ''1'')) = Inr (Val (JStr (str ''b'')))"
  "property_at [JStr (str ''a''), JStr (str ''b'')] (JStr (str ''01'')) = Inr (Inherited (str ''01''))"
  "property_at [JStr (str ''a''), JStr (str ''b'')] (JStr (str ''length'')) = Inr (Val (JNum (Num 2)))"
  "property_at [JStr (str ''a''), JStr (str ''b'')] (JArr [JNum (Num 1)]) = Inr (Val (JStr (str ''b'')))"
  "property_at [JStr (str ''a''), JStr (str ''b'')] (JArr [JNum (Num 1), JNum (Num 0)]) = Inr Undefined"
  "property_at [JStr (str ''a''), JStr (str ''b'')] (JArr [JNull, JObj [(str ''toString'', JNull)]])
     = Inl TypeError"
  by (simp_all add: index_of_def is_digit_def digits_value_def str_def array_length_def)

subsection \<open>Renders that throw\<close>


lemma current_isl:
  "isl (current w) \<longleftrightarrow> (\<exists>k. element_at (order w) (index w) = Some k \<and> to_string_throws k)"
proof (cases "element_at (order w) (index w)")
  case None
  then show ?thesis by (simp add: current_def)
next
  case (Some k)
  have "isl (property_at (rows w) k) = to_string_throws k"
    using property_at_throws [of "rows w" k] by (cases "property_at (rows w) k") auto
  then show ?thesis using Some by (simp add: current_def)
qed







section \<open>The claims\<close>

text \<open>
  Claim C1. The restore effect adopts the stored snapshot (\<open>rows\<close>, \<open>order\<close> and
  \<open>index\<close> become its three fields, and no catalog load is started) if and only if the
  snapshot is valid: the item deserializes, its \<^verbatim>\<open>rows\<close> and \<^verbatim>\<open>order\<close> are
  non-empty arrays and its \<^verbatim>\<open>index\<close> is a number. In every other case the state and the
  storage stay as they are and a catalog load is started; a parse failure is caught and
  logged by one warning.
\<close>

theorem restore_adopts_iff_valid:
  assumes "\<not> restoredRef w"
  shows "(case valid_snapshot (storage w STORAGE_KEY) of
            Some (r, ord, i) \<Rightarrow>
              rows (restore_effect w) = r \<and> order (restore_effect w) = ord
            \<and> index (restore_effect w) = i \<and> \<not> loading (restore_effect w)
            \<and> csv_requests (restore_effect w) = csv_requests w
            \<and> warnings (restore_effect w) = warnings w
          | None \<Rightarrow>
              rows (restore_effect w) = rows w \<and> order (restore_effect w) = order w
            \<and> index (restore_effect w) = index w \<and> loading (restore_effect w) = loading w
            \<and> storage (restore_effect w) = storage w
            \<and> csv_requests (restore_effect w) = Suc (csv_requests w)
            \<and> warnings (restore_effect w) =
                (if parse_fails (storage w STORAGE_KEY) then Suc (warnings w) else warnings w))
       \<and> ((valid_snapshot (storage w STORAGE_KEY) \<noteq> None)
            = (csv_requests (restore_effect w) = csv_requests w))"
proof (cases "valid_snapshot (storage w STORAGE_KEY)")
  case None
  then show ?thesis
    by (simp add: restore_effect_invalid [OF assms None] fell_through_def)
next
  case (Some t)
  obtain r ord i where t: "t = (r, ord, i)" by (cases t)
  show ?thesis
    using Some t by (simp add: restore_effect_valid [OF assms Some [unfolded t]] adopted_def)
qed

theorem restore_adopts_iff_valid_witness:
  "\<not> restoredRef (initial saved_session)
   \<and> rows (restore_effect (initial saved_session)) = [JStr (str ''a''), JStr (str ''b'')]
   \<and> order (restore_effect (initial saved_session)) = [JNum (Num 1), JNum (Num 0)]
   \<and> index (restore_effect (initial saved_session)) = Num 1
   \<and> \<not> loading (restore_effect (initial saved_session))
   \<and> csv_requests (restore_effect (initial saved_session)) = 0
   \<and> \<not> restoredRef (initial [STORAGE_KEY \<mapsto> Malformed])
   \<and> csv_requests (restore_effect (initial [STORAGE_KEY \<mapsto> Malformed])) = 1
   \<and> warnings (restore_effect (initial [STORAGE_KEY \<mapsto> Malformed])) = 1
   \<and> order (restore_effect (initial [STORAGE_KEY \<mapsto> Malformed])) = []"
  using restore_adopts_iff_valid [of "initial saved_session"]
    restore_adopts_iff_valid [of "initial [STORAGE_KEY \<mapsto> Malformed]"] saved_session_valid
  by (simp add: initial_def valid_snapshot_def parse_fails_def)

text \<open>
  Claim C2. When \<open>order\<close> is not empty, \<^verbatim>\<open>next\<close> sets the index to
  \<open>min (index + 1) (length order - 1)\<close> and clears \<open>revealed\<close>; when \<open>order\<close> is empty
  it changes nothing. Hence, from a state whose cursor is in range, along any number of
  clicks on Next the index never decreases, stays in range (so it never exceeds
  \<open>length order - 1\<close>), and a click at the last position leaves it where it is.
\<close>

theorem advance_clamps:
  "(order w \<noteq> [] \<longrightarrow>
      index (next_card w) = Math_min (plus_one (index w)) (minus_one (array_length (order w)))
    \<and> \<not> revealed (next_card w))
   \<and> (order w = [] \<longrightarrow> next_card w = w)
   \<and> (cursor_in_range w \<longrightarrow>
         num_le (index ((step Next ^^ n) w)) (index ((step Next ^^ Suc n) w))
       \<and> cursor_in_range ((step Next ^^ n) w)
       \<and> order ((step Next ^^ n) w) = order w
       \<and> (order w \<noteq> [] \<longrightarrow>
            num_le (index ((step Next ^^ n) w)) (minus_one (array_length (order w)))))
   \<and> (order w \<noteq> [] \<and> index w = minus_one (array_length (order w)) \<longrightarrow>
         index (step Next w) = index w)"
proof -
  have seq: "num_le (index ((step Next ^^ n) w)) (index ((step Next ^^ Suc n) w))
       \<and> cursor_in_range ((step Next ^^ n) w)
       \<and> order ((step Next ^^ n) w) = order w
       \<and> (order w \<noteq> [] \<longrightarrow>
            num_le (index ((step Next ^^ n) w)) (minus_one (array_length (order w))))"
    if inv: "cursor_in_range w"
  proof -
    let ?v = "(step Next ^^ n) w"
    have v: "cursor_in_range ?v" "order ?v = order w"
      using steps_Next_invariant [OF inv, of n] by simp_all
    have "num_le (index ?v) (index (step Next ?v))"
      unfolding step_Next_fields using v(1) by (rule next_card_mono)
    moreover have "num_le (index ?v) (minus_one (array_length (order w)))" if "order w \<noteq> []"
      using next_card_bounded [OF v(1)] that v(2) by simp
    ultimately show ?thesis using v by simp
  qed
  show ?thesis
    using seq next_card_index [of w] next_card_revealed [of w] next_card_empty [of w]
      next_card_last [of w]
    by (simp add: step_Next_fields)
qed

theorem advance_clamps_witness:
  "order three_cards \<noteq> [] \<and> cursor_in_range three_cards
   \<and> index (next_card three_cards) = Num 1 \<and> \<not> revealed (next_card three_cards)
   \<and> num_le (index ((step Next ^^ 2) three_cards)) (index ((step Next ^^ Suc 2) three_cards))
   \<and> index ((step Next ^^ 2) three_cards) = Num 2
   \<and> index ((step Next ^^ 3) three_cards) = Num 2"
  using advance_clamps [of three_cards 2] three_cards_run
  by (simp add: three_cards_def initial_def cursor_in_range_def position_of_def array_length_def
      Math_min_def)

text \<open>
  Claim C3. The play order that \<^verbatim>\<open>startNew\<close> and the catalog load produce is a
  permutation of the positions \<open>0, ..., n - 1\<close> of the catalog: the same multiset, each
  position once. It is made by the shuffle of the specification: the loop of the source
  takes the steps \<open>i = n - 1, ..., 1\<close> in this order, each step draws a position \<open>j\<close>
  with \<open>j \<le> i\<close> and swaps the entries at \<open>i\<close> and \<open>j\<close>. The position drawn is the
  floor of the rounded product of the random number and \<open>i + 1\<close>, which is the floor of
  the exact product up to a relative error of \<open>2^(-53)\<close>.
\<close>

theorem play_order_is_permutation:
  assumes "unit_interval rnd"
  shows "(rows w \<noteq> [] \<longrightarrow>
            order (startNew rnd w) = fisher_yates rnd (indices (rows w))
          \<and> length (order (startNew rnd w)) = length (rows w)
          \<and> mset (order (startNew rnd w)) = mset (indices (rows w))
          \<and> distinct (order (startNew rnd w)))
       \<and> order (complete_csv rnd data w) = fisher_yates rnd (indices (rows (complete_csv rnd data w)))
       \<and> mset (order (complete_csv rnd data w)) = mset (indices (rows (complete_csv rnd data w)))
       \<and> distinct (order (complete_csv rnd data w))
       \<and> shuffle rnd a = fisher_yates rnd a
       \<and> length (shuffle rnd a) = length a
       \<and> mset (shuffle rnd a) = mset a
       \<and> map fst (draws rnd n) = rev [1..<n]
       \<and> list_all (\<lambda>(i, j). j \<le> i) (draws rnd n)
       \<and> (\<forall>k i. of_nat (random_index (rnd k) i)
                    \<le> rnd k * (of_nat i + 1) * (1 + 1 / 2 ^ 53) + 1 / 2 ^ 1075
                \<and> rnd k * (of_nat i + 1) * (1 - 1 / 2 ^ 53) - 1 / 2 ^ 1075
                    < of_nat (random_index (rnd k) i) + 1)"
proof -
  have new: "order (startNew rnd w) = shuffle rnd (indices (rows w))" if "rows w \<noteq> []"
    using that by (simp add: startNew_fields)
  have csv_rows: "rows (complete_csv rnd data w) = map track_object (mapped data)"
    by (simp add: complete_fields)
  have csv: "order (complete_csv rnd data w) = shuffle rnd (indices (map track_object (mapped data)))"
    by (simp add: complete_fields)
  have perm: "mset (shuffle rnd xs) = mset xs" for xs :: "'b list"
    using assms by (rule mset_shuffle)
  have dist: "distinct (shuffle rnd (indices xs))" for xs :: "json list"
    using assms distinct_indices by (rule distinct_shuffle)
  have len: "length (shuffle rnd (indices xs)) = length xs" for xs :: "json list"
    by (simp add: length_shuffle length_indices)
  have near: "\<forall>k i. of_nat (random_index (rnd k) i)
                    \<le> rnd k * (of_nat i + 1) * (1 + 1 / 2 ^ 53) + 1 / 2 ^ 1075
                \<and> rnd k * (of_nat i + 1) * (1 - 1 / 2 ^ 53) - 1 / 2 ^ 1075
                    < of_nat (random_index (rnd k) i) + 1"
  proof (intro allI)
    fix k i
    have "0 \<le> rnd k" using assms by (simp add: unit_interval_def)
    then show "of_nat (random_index (rnd k) i)
          \<le> rnd k * (of_nat i + 1) * (1 + 1 / 2 ^ 53) + 1 / 2 ^ 1075
        \<and> rnd k * (of_nat i + 1) * (1 - 1 / 2 ^ 53) - 1 / 2 ^ 1075
          < of_nat (random_index (rnd k) i) + 1"
      by (rule random_index_near)
  qed
  have one: "(rows w \<noteq> [] \<longrightarrow>
            order (startNew rnd w) = fisher_yates rnd (indices (rows w))
          \<and> length (order (startNew rnd w)) = length (rows w)
          \<and> mset (order (startNew rnd w)) = mset (indices (rows w))
          \<and> distinct (order (startNew rnd w)))"
    using new perm [of "indices (rows w)"] dist [of "rows w"] len [of "rows w"]
    by (simp add: shuffle_fisher_yates)
  have two: "order (complete_csv rnd data w) = fisher_yates rnd (indices (rows (complete_csv rnd data w)))
       \<and> mset (order (complete_csv rnd data w)) = mset (indices (rows (complete_csv rnd data w)))
       \<and> distinct (order (complete_csv rnd data w))"
    unfolding csv csv_rows
    using perm [of "indices (map track_object (mapped data))"] dist [of "map track_object (mapped data)"]
    by (simp add: shuffle_fisher_yates)
  have three: "shuffle rnd a = fisher_yates rnd a" "length (shuffle rnd a) = length a"
    "mset (shuffle rnd a) = mset a" "map fst (draws rnd n) = rev [1..<n]"
    "list_all (\<lambda>(i, j). j \<le> i) (draws rnd n)"
    using perm [of a] draws_le [OF assms, of n]
    by (simp_all add: shuffle_fisher_yates [symmetric] length_shuffle draws_fst)
  from one two three near show ?thesis
    by blast
qed

theorem play_order_is_permutation_witness:
  "unit_interval half_then_zero \<and> rows three_rows \<noteq> []
   \<and> order (startNew half_then_zero three_rows)
       = fisher_yates half_then_zero (indices (rows three_rows))
   \<and> mset (order (startNew half_then_zero three_rows)) = mset (indices (rows three_rows))
   \<and> distinct (order (startNew half_then_zero three_rows))
   \<and> list_all (\<lambda>(i, j). j \<le> i) (draws half_then_zero 3)
   \<and> draws half_then_zero 3 = [(2, 1), (1, 0)]
   \<and> order (startNew half_then_zero three_rows) = [JNum (Num 2), JNum (Num 0), JNum (Num 1)]
   \<and> is_double third \<and> random_index third 2 = 1"
proof -
  have some: "rows three_rows \<noteq> []"
    by (simp add: three_rows_def)
  note facts = play_order_is_permutation [OF half_then_zero_unit, of three_rows "[]" "[]" 3]
  from facts some
  have "order (startNew half_then_zero three_rows)
        = fisher_yates half_then_zero (indices (rows three_rows))
      \<and> mset (order (startNew half_then_zero three_rows)) = mset (indices (rows three_rows))
      \<and> distinct (order (startNew half_then_zero three_rows))
      \<and> list_all (\<lambda>(i, j). j \<le> i) (draws half_then_zero 3)"
    by blast
  then show ?thesis
    using half_then_zero_unit some three_rows_order draws_half_then_zero is_double_third
      random_index_third
    by blast
qed

text \<open>
  Claim C4, as amended. The catalog load and \<^verbatim>\<open>startNew\<close> establish the invariant of
  the cursor and \<^verbatim>\<open>next\<close> preserves it; the restore effect adopts the stored index
  unchecked. So every state reachable from startup has its cursor in range provided the
  stored snapshot, if there is a valid one, has its index in range.
\<close>

theorem reachable_cursor_in_range:
  "cursor_in_range (complete_csv rnd data w)
   \<and> (rows w \<noteq> [] \<longrightarrow> cursor_in_range (startNew rnd w))
   \<and> (cursor_in_range w \<longrightarrow> cursor_in_range (next_card w) \<and> cursor_in_range (step e w))
   \<and> (valid_snapshot (store STORAGE_KEY) = Some (r, ord, i) \<longrightarrow>
         cursor_in_range (startup strict store) = position_of ord i)
   \<and> (reachable store v \<and> stored_cursor_in_range store \<longrightarrow> cursor_in_range v)"
proof -
  have "cursor_in_range v" if "reachable store v" "stored_cursor_in_range store"
    using that by (induction rule: reachable.induct) (simp_all add: startup_in_range step_in_range)
  moreover have "cursor_in_range (startNew rnd w)" if "rows w \<noteq> []"
    using that by (simp add: first_in_range startNew_fields)
  moreover have "cursor_in_range (complete_csv rnd data w)"
    by (simp add: first_in_range complete_fields)
  ultimately show ?thesis
    using next_card_in_range [of w] step_in_range [of w e]
      startup_adopted_in_range [of store r ord i strict]
    by blast
qed

theorem reachable_cursor_in_range_witness:
  "reachable saved_session (step Next (startup True saved_session))
   \<and> stored_cursor_in_range saved_session
   \<and> cursor_in_range (step Next (startup True saved_session))
   \<and> valid_snapshot (saved_session STORAGE_KEY)
       = Some ([JStr (str ''a''), JStr (str ''b'')], [JNum (Num 1), JNum (Num 0)], Num 1)
   \<and> cursor_in_range (startup True saved_session)"
proof -
  let ?v = "step Next (startup True saved_session)"
  have r: "reachable saved_session ?v"
    by (intro reachable.intros)
  have p: "position_of [JNum (Num 1), JNum (Num 0)] (Num 1)"
    by (simp add: position_of_def)
  note facts = reachable_cursor_in_range [of "\<lambda>k. 0" "[]" "initial Map.empty" Next saved_session
      "[JStr (str ''a''), JStr (str ''b'')]" "[JNum (Num 1), JNum (Num 0)]" "Num 1" True ?v]
  from facts r p saved_session_in_range saved_session_valid show ?thesis by blast
qed

text \<open>
  The claim as it was stated fails: started on a stored session with one entry in
  \<open>order\<close> and the index 5, the component is in a state whose cursor is out of range.
\<close>

theorem reachable_cursor_in_range_counterexample:
  "reachable stale_session (startup False stale_session)
   \<and> order (startup False stale_session) = [JNum (Num 0)]
   \<and> index (startup False stale_session) = Num 5
   \<and> \<not> cursor_in_range (startup False stale_session)"
  using reachable.start [of stale_session False]
  by (simp add: startup_fields [where store = stale_session, OF stale_session_valid]
      cursor_in_range_def position_of_def)



text \<open>
  Claim C6, as amended. When the restore effect adopts a valid snapshot it writes the
  triple back under the same key at once; reading the storage again right after the effect
  yields the same rows, order and index provided every number in the snapshot is finite.
  Startup as a whole ends with the same triple in the storage provided, in addition, the
  render of the restored state completes. Its read of the current track throws exactly
  when the entry of \<open>order\<close> at the index cannot be converted to a property name; the
  storage is then left with the empty triple that the persist effect of the first render
  wrote, which is no valid snapshot.
\<close>

theorem restore_round_trip:
  assumes "\<not> restoredRef w" "valid_snapshot (storage w STORAGE_KEY) = Some (r, ord, i)"
  shows "storage (restore_effect w) STORAGE_KEY = Some (JSON_stringify (snapshot ord i r))
       \<and> (list_all finite_json r \<and> list_all finite_json ord \<and> finite_json (JNum i) \<longrightarrow>
             valid_snapshot (storage (restore_effect w) STORAGE_KEY) = Some (r, ord, i))
       \<and> crashed (startup strict (storage w))
           = (\<exists>k. element_at ord i = Some k \<and> to_string_throws k)
       \<and> (\<not> crashed (startup strict (storage w)) \<longrightarrow>
             storage (startup strict (storage w)) STORAGE_KEY
               = Some (JSON_stringify (snapshot ord i r))
           \<and> (list_all finite_json r \<and> list_all finite_json ord \<and> finite_json (JNum i) \<longrightarrow>
                valid_snapshot (storage (startup strict (storage w)) STORAGE_KEY)
                  = Some (r, ord, i)))
       \<and> (crashed (startup strict (storage w)) \<longrightarrow>
             storage (startup strict (storage w)) STORAGE_KEY
               = Some (JSON_stringify (snapshot [] (Num 0) []))
           \<and> valid_snapshot (storage (startup strict (storage w)) STORAGE_KEY) = None)"
proof -
  let ?s = "startup strict (storage w)"
  have ne: "r \<noteq> []" "ord \<noteq> []"
    using assms(2) by (auto elim: valid_snapshot_Some)
  have effect: "storage (restore_effect w) STORAGE_KEY = Some (JSON_stringify (snapshot ord i r))"
    by (simp add: restore_effect_valid [OF assms] adopted_def)
  have crash: "crashed ?s = (\<exists>k. element_at ord i = Some k \<and> to_string_throws k)"
    unfolding startup_fields [of "storage w" r ord i, OF assms(2)] current_isl by simp
  have cells: "order ?s = ord" "index ?s = i" "rows ?s = r"
    by (simp_all add: startup_fields [of "storage w" r ord i, OF assms(2)])
  have kept: "storage ?s STORAGE_KEY = Some (JSON_stringify (snapshot ord i r))"
    if "\<not> crashed ?s"
    using startup_invariant [OF that] unfolding storage_matches_def cells by simp
  have lost: "storage ?s STORAGE_KEY = Some (JSON_stringify (snapshot [] (Num 0) []))"
    if "crashed ?s"
    using that by (rule startup_crashed_storage)
  have none: "valid_snapshot (Some (JSON_stringify (snapshot [] (Num 0) []))) = None"
    by (simp add: JSON_stringify_def snapshot_def valid_snapshot_def)
  have again: "valid_snapshot (Some (JSON_stringify (snapshot ord i r))) = Some (r, ord, i)"
    if "list_all finite_json r" "list_all finite_json ord" "finite_json (JNum i)"
    using that ne by (simp add: JSON_stringify_def reparse_snapshot valid_snapshot_snapshot)
  show ?thesis
    using effect crash kept lost none again by simp
qed

theorem restore_round_trip_witness:
  "\<not> restoredRef (initial saved_session)
   \<and> valid_snapshot (storage (initial saved_session) STORAGE_KEY)
       = Some ([JStr (str ''a''), JStr (str ''b'')], [JNum (Num 1), JNum (Num 0)], Num 1)
   \<and> valid_snapshot (storage (restore_effect (initial saved_session)) STORAGE_KEY)
       = Some ([JStr (str ''a''), JStr (str ''b'')], [JNum (Num 1), JNum (Num 0)], Num 1)
   \<and> \<not> crashed (startup True saved_session)
   \<and> valid_snapshot (storage (startup True saved_session) STORAGE_KEY)
       = Some ([JStr (str ''a''), JStr (str ''b'')], [JNum (Num 1), JNum (Num 0)], Num 1)
   \<and> \<not> restoredRef (initial poisoned_session)
   \<and> crashed (startup False poisoned_session)
   \<and> valid_snapshot (storage (startup False poisoned_session) STORAGE_KEY) = None"
proof -
  have fresh: "\<not> restoredRef (initial saved_session)" by simp
  have valid: "valid_snapshot (storage (initial saved_session) STORAGE_KEY)
      = Some ([JStr (str ''a''), JStr (str ''b'')], [JNum (Num 1), JNum (Num 0)], Num 1)"
    by (simp add: saved_session_valid)
  have finite: "list_all finite_json [JStr (str ''a''), JStr (str ''b'')]
      \<and> list_all finite_json [JNum (Num 1), JNum (Num 0)] \<and> finite_json (JNum (Num 1))"
    by simp
  have sound: "\<not> (\<exists>k. element_at [JNum (Num 1), JNum (Num 0)] (Num 1) = Some k \<and> to_string_throws k)"
    by simp
  have fresh': "\<not> restoredRef (initial poisoned_session)" by simp
  have valid': "valid_snapshot (storage (initial poisoned_session) STORAGE_KEY)
      = Some ([JStr (str ''a'')], [JObj [(str ''toString'', JNum (Num 1))]], Num 0)"
    by (simp add: poisoned_session_valid)
  have poison: "\<exists>k. element_at [JObj [(str ''toString'', JNum (Num 1))]] (Num 0) = Some k
      \<and> to_string_throws k"
    by simp
  note round_trip = restore_round_trip [OF fresh valid, of True, unfolded initial_fields]
  note thrown = restore_round_trip [OF fresh' valid', of False, unfolded initial_fields]
  from round_trip finite sound
  have "valid_snapshot (storage (restore_effect (initial saved_session)) STORAGE_KEY)
        = Some ([JStr (str ''a''), JStr (str ''b'')], [JNum (Num 1), JNum (Num 0)], Num 1)
      \<and> \<not> crashed (startup True saved_session)
      \<and> valid_snapshot (storage (startup True saved_session) STORAGE_KEY)
        = Some ([JStr (str ''a''), JStr (str ''b'')], [JNum (Num 1), JNum (Num 0)], Num 1)"
    by blast
  moreover from thrown poison
  have "crashed (startup False poisoned_session)
      \<and> valid_snapshot (storage (startup False poisoned_session) STORAGE_KEY) = None"
    by blast
  ultimately show ?thesis
    using fresh valid fresh' by blast
qed

text \<open>
  The claim as it was stated fails: the index \<^verbatim>\<open>1e999\<close> is read as \<^verbatim>\<open>Infinity\<close>,
  which is a number, so the snapshot is adopted; \<^verbatim>\<open>JSON.stringify\<close> writes it back as
  \<^verbatim>\<open>null\<close>, and what is read again is no valid snapshot.
\<close>

theorem restore_round_trip_counterexample:
  "valid_snapshot (overflowed_session STORAGE_KEY) = Some ([JStr (str ''a'')], [JNum (Num 0)], PosInf)
   \<and> index (restore_effect (initial overflowed_session)) = PosInf
   \<and> storage (restore_effect (initial overflowed_session)) STORAGE_KEY =
       Some (JsonText (JObj [(str ''order'', JArr [JNum (Num 0)]), (str ''index'', JNull),
                             (str ''rows'', JArr [JStr (str ''a'')])]))
   \<and> valid_snapshot (storage (restore_effect (initial overflowed_session)) STORAGE_KEY) = None"
proof -
  have "restore_effect (initial overflowed_session)
      = adopted [JStr (str ''a'')] [JNum (Num 0)] PosInf (initial overflowed_session)"
    by (rule restore_effect_valid) (simp_all add: overflowed_session_valid)
  then have after: "index (restore_effect (initial overflowed_session)) = PosInf"
    "storage (restore_effect (initial overflowed_session)) STORAGE_KEY =
       Some (JsonText (JObj [(str ''order'', JArr [JNum (Num 0)]), (str ''index'', JNull),
                             (str ''rows'', JArr [JStr (str ''a'')])]))"
    by (simp_all add: adopted_def JSON_stringify_def snapshot_def)
  have "valid_snapshot (storage (restore_effect (initial overflowed_session)) STORAGE_KEY) = None"
    unfolding after(2) by (simp add: valid_snapshot_def)
  then show ?thesis
    using after overflowed_session_valid by blast
qed




text \<open>
  Claim C8. \<^verbatim>\<open>startNew\<close> on an empty catalog changes nothing; on a non-empty catalog it
  sets the index to 0, clears \<open>revealed\<close> and leaves \<open>rows\<close> as they are.
\<close>

theorem startNew_frame:
  "(rows w = [] \<longrightarrow> startNew rnd w = w \<and> (\<not> deps_changed w \<longrightarrow> step (StartNew rnd) w = w))
   \<and> (rows w \<noteq> [] \<longrightarrow>
         index (startNew rnd w) = Num 0 \<and> \<not> revealed (startNew rnd w)
       \<and> rows (startNew rnd w) = rows w
       \<and> index (step (StartNew rnd) w) = Num 0 \<and> \<not> revealed (step (StartNew rnd) w)
       \<and> rows (step (StartNew rnd) w) = rows w)"
proof -
  have idle: "step (StartNew rnd) w = w" if "rows w = []" "\<not> deps_changed w"
    using that by (simp add: step_def Let_def startNew_fields rerenders_def)
  have cells: "index (startNew rnd w) = Num 0 \<and> \<not> revealed (startNew rnd w)
      \<and> rows (startNew rnd w) = rows w" if "rows w \<noteq> []"
    using that
    by (simp add: startNew_def Let_def localStorage_setItem_def setVideoLoading_def
        setRevealed_def setIndex_def setOrder_def)
  show ?thesis
    using idle cells startNew_fields(3) [of w rnd] by simp
qed

theorem startNew_frame_witness:
  "rows (initial Map.empty) = []
   \<and> startNew (\<lambda>k. 1 / 2) (initial Map.empty) = initial Map.empty
   \<and> step (StartNew (\<lambda>k. 1 / 2)) (initial Map.empty) = initial Map.empty
   \<and> rows three_rows \<noteq> []
   \<and> index (step (StartNew (\<lambda>k. 1 / 2)) three_rows) = Num 0
   \<and> \<not> revealed (step (StartNew (\<lambda>k. 1 / 2)) three_rows)
   \<and> rows (step (StartNew (\<lambda>k. 1 / 2)) three_rows) = [JNull, JNull, JNull]"
  using startNew_frame [of "initial Map.empty" "\<lambda>k. 1 / 2"] startNew_frame [of three_rows "\<lambda>k. 1 / 2"]
  by (simp add: three_rows_def initial_def)

text \<open>
  Claim C9. The restore effect sets its guard, and a second run changes nothing: running
  the startup effects twice, as \<^verbatim>\<open>StrictMode\<close> does, leaves the same state and storage
  as running them once.
\<close>

theorem restore_runs_once:
  "restoredRef (restore_effect w)
   \<and> restore_effect (restore_effect w) = restore_effect w
   \<and> (restoredRef w \<longrightarrow> restore_effect w = w)
   \<and> mount_effects a b c (mount_effects a b c w) = mount_effects a b c w
   \<and> startup True store = startup False store"
proof -
  have once: "restore_effect (restore_effect w) = restore_effect w" for w
    using restoredRef_restore_effect by (rule restore_effect_guarded)
  have mount: "mount_effects x y z (mount_effects x y z v) = mount_effects x y z v" for x y z v
  proof -
    have "restoredRef (persist_effect x y z (restore_effect v))"
      by (simp add: restoredRef_restore_effect)
    then show ?thesis
      unfolding mount_effects_def by (simp add: restore_effect_guarded persist_effect_twice)
  qed
  have "startup True store = startup False store"
    by (simp add: startup_def Let_def mount)
  then show ?thesis
    using once mount restoredRef_restore_effect restore_effect_guarded by blast
qed

theorem restore_runs_once_witness:
  "restoredRef (restore_effect (initial saved_session))
   \<and> restore_effect (restore_effect (initial saved_session)) = restore_effect (initial saved_session)
   \<and> restore_effect (restore_effect (initial Map.empty)) = restore_effect (initial Map.empty)
   \<and> csv_requests (restore_effect (restore_effect (initial Map.empty))) = 1"
proof -
  have "csv_requests (restore_effect (initial Map.empty)) = 1"
    by (simp add: restore_effect_def initial_def localStorage_getItem_def Papa_parse_def)
  then show ?thesis
    using restore_runs_once [of "initial saved_session"] restore_runs_once [of "initial Map.empty"]
    by simp
qed

text \<open>
  Claim C10, as amended. The restore effect adopts every valid snapshot as it is, whatever
  its index and the entries of its order. The current track is \<^verbatim>\<open>undefined\<close> when the
  index is not a position of \<open>order\<close>, and when the entry at the index is a number that
  is not a position of \<open>rows\<close>. Reading it throws a \<^verbatim>\<open>TypeError\<close> exactly when the
  conversion of that entry to a property name throws, and returns a value otherwise.
\<close>

theorem restore_adopts_unchecked:
  assumes "\<not> restoredRef w" "valid_snapshot (storage w STORAGE_KEY) = Some (r, ord, i)"
  shows "rows (restore_effect w) = r \<and> order (restore_effect w) = ord
       \<and> index (restore_effect w) = i
       \<and> (\<not> position_of ord i \<longrightarrow> current (restore_effect w) = Inr Undefined)
       \<and> (\<forall>n. element_at ord i = Some (JNum n) \<and> \<not> position_of r n \<longrightarrow>
             current (restore_effect w) = Inr Undefined)
       \<and> (\<forall>k. element_at ord i = Some k \<longrightarrow>
             (current (restore_effect w) = Inl TypeError) = to_string_throws k
           \<and> (\<not> to_string_throws k \<longrightarrow> (\<exists>v. current (restore_effect w) = Inr v)))"
proof -
  let ?w = "restore_effect w"
  have fields: "rows ?w = r" "order ?w = ord" "index ?w = i"
    by (simp_all add: restore_effect_valid [OF assms] adopted_def)
  have total: "\<exists>v. current ?w = Inr v" if "element_at ord i = Some k" "\<not> to_string_throws k" for k
    using that property_at_total [of k r] by (simp add: current_def fields)
  show ?thesis
    using current_absent_index [of ?w] current_absent_entry [of ?w] current_throws [of ?w] total
    unfolding fields by blast
qed

theorem restore_adopts_unchecked_witness:
  "\<not> restoredRef (initial fractional_session)
   \<and> valid_snapshot (storage (initial fractional_session) STORAGE_KEY)
       = Some ([JStr (str ''a'')], [JNum (Num 7), JNum (Num 0)], Num (3 / 2))
   \<and> index (restore_effect (initial fractional_session)) = Num (3 / 2)
   \<and> \<not> position_of [JNum (Num 7), JNum (Num 0)] (Num (3 / 2))
   \<and> current (restore_effect (initial fractional_session)) = Inr Undefined"
proof -
  have fresh: "\<not> restoredRef (initial fractional_session)" by simp
  have valid: "valid_snapshot (storage (initial fractional_session) STORAGE_KEY)
      = Some ([JStr (str ''a'')], [JNum (Num 7), JNum (Num 0)], Num (3 / 2))"
    by (simp add: fractional_session_valid)
  have off: "\<not> position_of [JNum (Num 7), JNum (Num 0)] (Num (3 / 2))"
    by (simp add: position_of_def floor_three_halves)
  from restore_adopts_unchecked [OF fresh valid] off fresh valid show ?thesis by blast
qed

text \<open>
  The claim as it was stated fails: the stored order \<^verbatim>\<open>[{"toString": 1}]\<close> passes the
  validation, and reading the current track then throws.
\<close>

theorem restore_adopts_unchecked_counterexample:
  "valid_snapshot (poisoned_session STORAGE_KEY)
     = Some ([JStr (str ''a'')], [JObj [(str ''toString'', JNum (Num 1))]], Num 0)
   \<and> rows (startup False poisoned_session) = [JStr (str ''a'')]
   \<and> order (startup False poisoned_session) = [JObj [(str ''toString'', JNum (Num 1))]]
   \<and> index (startup False poisoned_session) = Num 0
   \<and> current (startup False poisoned_session) = Inl TypeError"
proof -
  have fields: "rows (startup False poisoned_session) = [JStr (str ''a'')]"
    "order (startup False poisoned_session) = [JObj [(str ''toString'', JNum (Num 1))]]"
    "index (startup False poisoned_session) = Num 0"
    by (simp_all add: startup_fields [where store = poisoned_session, OF poisoned_session_valid])
  have "current (startup False poisoned_session) = Inl TypeError"
    unfolding current_def fields by simp
  then show ?thesis
    using fields poisoned_session_valid by blast
qed

end
